theory Spec2Isabelle
  imports Main "HOL-Library.Sublist" "HOL-Library.Multiset"
begin

section \<open>String primitives of the Go standard library used by tag-finder.go\<close>

text \<open>
  Go strings are byte sequences; they are modelled as \<open>string\<close> (a list of 8-bit
  characters). Every separator the program passes to \<open>strings.Split\<close> and
  \<open>strings.SplitN\<close> is a single byte, so the separator is a \<open>char\<close>.
\<close>

text \<open>\<open>strings.HasPrefix(s, p)\<close> and \<open>strings.HasSuffix(s, p)\<close>.\<close>

definition HasPrefix :: "string \<Rightarrow> string \<Rightarrow> bool" where
  "HasPrefix s p = prefix p s"

definition HasSuffix :: "string \<Rightarrow> string \<Rightarrow> bool" where
  "HasSuffix s p = suffix p s"

text \<open>\<open>strings.TrimPrefix(s, p)\<close>: one occurrence of the prefix is removed, if present.\<close>

definition TrimPrefix :: "string \<Rightarrow> string \<Rightarrow> string" where
  "TrimPrefix s p = (if HasPrefix s p then drop (length p) s else s)"

text \<open>\<open>strings.Contains(s, sub)\<close>.\<close>

fun Contains :: "string \<Rightarrow> string \<Rightarrow> bool" where
  "Contains [] sub = (sub = [])"
| "Contains (x # xs) sub = (HasPrefix (x # xs) sub \<or> Contains xs sub)"


text \<open>
  \<open>strings.Split(s, sep)\<close> for a one-byte separator: all the pieces between the
  separators; the empty string gives one empty piece. A byte that is not the
  separator joins the first piece of the rest (the rest always has a first piece, so
  the \<open>[]\<close> branch is never taken).
\<close>

fun Split :: "string \<Rightarrow> char \<Rightarrow> string list" where
  "Split [] c = [[]]"
| "Split (x # xs) c =
     (if x = c then [] # Split xs c
      else (case Split xs c of [] \<Rightarrow> [[x]] | p # ps \<Rightarrow> (x # p) # ps))"

text \<open>
  \<open>strings.SplitN(s, sep, 2)\<close> for a one-byte separator: the string itself when the
  separator does not occur, otherwise the text before the first separator and the
  text after it.
\<close>

definition SplitN2 :: "string \<Rightarrow> char \<Rightarrow> string list" where
  "SplitN2 s c =
     (if c \<in> set s
      then [takeWhile (\<lambda>x. x \<noteq> c) s, tl (dropWhile (\<lambda>x. x \<noteq> c) s)]
      else [s])"

text \<open>\<open>strings.Trim(s, cutset)\<close> for an ASCII cutset: strips the bytes of the cutset
  from both ends.\<close>

definition Trim :: "string \<Rightarrow> string \<Rightarrow> string" where
  "Trim s cutset =
     rev (dropWhile (\<lambda>x. x \<in> set cutset) (rev (dropWhile (\<lambda>x. x \<in> set cutset) s)))"

text \<open>
  \<open>strings.TrimSpace\<close> strips the white space of Unicode from both ends. In UTF-8
  these are the six ASCII bytes and the encodings of U+0085, U+00A0, U+1680,
  U+2000..U+200A, U+2028, U+2029, U+202F, U+205F and U+3000.
\<close>

definition space_runes :: "string list" where
  "space_runes =
     [[CHR 0x09], [CHR 0x0A], [CHR 0x0B], [CHR 0x0C], [CHR 0x0D], [CHR 0x20],
      [CHR 0xC2, CHR 0x85], [CHR 0xC2, CHR 0xA0], [CHR 0xE1, CHR 0x9A, CHR 0x80],
      [CHR 0xE2, CHR 0x80, CHR 0x80], [CHR 0xE2, CHR 0x80, CHR 0x81],
      [CHR 0xE2, CHR 0x80, CHR 0x82], [CHR 0xE2, CHR 0x80, CHR 0x83],
      [CHR 0xE2, CHR 0x80, CHR 0x84], [CHR 0xE2, CHR 0x80, CHR 0x85],
      [CHR 0xE2, CHR 0x80, CHR 0x86], [CHR 0xE2, CHR 0x80, CHR 0x87],
      [CHR 0xE2, CHR 0x80, CHR 0x88], [CHR 0xE2, CHR 0x80, CHR 0x89],
      [CHR 0xE2, CHR 0x80, CHR 0x8A], [CHR 0xE2, CHR 0x80, CHR 0xA8],
      [CHR 0xE2, CHR 0x80, CHR 0xA9], [CHR 0xE2, CHR 0x80, CHR 0xAF],
      [CHR 0xE2, CHR 0x81, CHR 0x9F], [CHR 0xE3, CHR 0x80, CHR 0x80]]"

text \<open>The length of the white-space rune a string starts with, if it starts with one.\<close>

definition leading_space :: "string \<Rightarrow> nat option" where
  "leading_space s = map_option length (find (\<lambda>r. prefix r s) space_runes)"

function TrimLeftSpace :: "string \<Rightarrow> string" where
  "TrimLeftSpace s =
     (case leading_space s of None \<Rightarrow> s | Some n \<Rightarrow> TrimLeftSpace (drop n s))"
  by pat_completeness auto
termination
proof (relation "measure length")
  show "wf (measure length)" by simp
next
  fix s :: string and n :: nat
  assume "leading_space s = Some n"
  then have "0 < n \<and> n \<le> length s"
    unfolding leading_space_def
    by (auto simp: find_Some_iff space_runes_def prefix_def nth_Cons' split: if_splits)
  then have "length s - n < length s" by arith
  then show "(drop n s, s) \<in> measure length" by simp
qed

text \<open>
  The same from the end: the length of the white-space rune a string ends with. (A
  string that ends with the bytes of such a rune ends with that rune, whatever
  comes before.)
\<close>

definition trailing_space :: "string \<Rightarrow> nat option" where
  "trailing_space s = map_option length (find (\<lambda>r. suffix r s) space_runes)"

function TrimRightSpace :: "string \<Rightarrow> string" where
  "TrimRightSpace s =
     (case trailing_space s of None \<Rightarrow> s
      | Some n \<Rightarrow> TrimRightSpace (take (length s - n) s))"
  by pat_completeness auto
termination
proof (relation "measure length")
  show "wf (measure length)" by simp
next
  fix s :: string and n :: nat
  assume "trailing_space s = Some n"
  then have "0 < n \<and> n \<le> length s"
    unfolding trailing_space_def
    by (auto simp: find_Some_iff space_runes_def suffix_def nth_Cons' split: if_splits)
  then have "length s - n < length s" by arith
  then show "(take (length s - n) s, s) \<in> measure length" by simp
qed

definition TrimSpace :: "string \<Rightarrow> string" where
  "TrimSpace s = TrimRightSpace (TrimLeftSpace s)"

section \<open>Reference Resolver\<close>

text \<open>
  \<open>parseImageReference\<close> returns the registry URL, the repository path and the error
  (\<open>None\<close> is Go's \<open>nil\<close>).
\<close>

definition parseImageReference :: "string \<Rightarrow> string \<times> string \<times> string option" where
  "parseImageReference img =
     (let parts = SplitN2 img CHR ''/'' in
      if length parts = 1
      then (''https://registry-1.docker.io'', ''library/'' @ parts ! 0, None)
      else
        let registry = parts ! 0; repo = parts ! 1 in
        if registry = ''docker.io''
        then (''https://registry-1.docker.io'',
              (if \<not> Contains repo ''/'' then ''library/'' @ repo else repo), None)
        else if registry = ''ghcr.io'' then (''https://ghcr.io'', repo, None)
        else if registry = ''quay.io'' then (''https://quay.io'', repo, None)
        else (''https://'' @ registry, repo, None))"

text \<open>
  The part of \<open>main\<close> between flag parsing and the start of the UI program: the image
  argument loses one leading \<open>docker://\<close>, the digest gains the prefix \<open>sha256:\<close>
  when it lacks it.
\<close>

definition main_image :: "string \<Rightarrow> string" where
  "main_image arg = TrimPrefix arg ''docker://''"

definition main_digest :: "string \<Rightarrow> string" where
  "main_digest arg = (if \<not> HasPrefix arg ''sha256:'' then ''sha256:'' @ arg else arg)"

text \<open>The invariant the specification gives for the repository of an image reference.\<close>

definition repository_ok :: "string \<Rightarrow> bool" where
  "repository_ok repo \<longleftrightarrow>
     repo \<noteq> [] \<and> \<not> HasPrefix repo ''/'' \<and> \<not> HasSuffix repo ''/''"

definition repository_of :: "string \<times> string \<times> string option \<Rightarrow> string" where
  "repository_of r = fst (snd r)"

definition error_of :: "string \<times> string \<times> string option \<Rightarrow> string option" where
  "error_of r = snd (snd r)"

text \<open>
  The image strings for which the repository comes out well-formed: not empty, not
  ending in a slash, and the first slash (if there is one) not followed at once by
  another slash.
\<close>

definition image_ok :: "string \<Rightarrow> bool" where
  "image_ok img \<longleftrightarrow>
     img \<noteq> [] \<and> \<not> HasSuffix img ''/'' \<and>
     \<not> HasPrefix (dropWhile (\<lambda>x. x \<noteq> CHR ''/'') img) ''//''"

declare TrimLeftSpace.simps [simp del] TrimRightSpace.simps [simp del]

section \<open>Tag Lister: the Link header\<close>

text \<open>The token that marks the link to the next page.\<close>

definition rel_next :: string where
  "rel_next = ''rel=\"next\"''"

text \<open>
  The loop of \<open>parseLinkHeader\<close> over \<open>parts[1:]\<close>: the first part that contains
  the token ends it with the URL, stripped of its angle brackets.
\<close>

fun next_link :: "string list \<Rightarrow> string \<Rightarrow> string" where
  "next_link [] urlPart = ''''"
| "next_link (part # rest) urlPart =
     (if Contains part rel_next then Trim urlPart ''<>'' else next_link rest urlPart)"

definition parseLinkHeader :: "string \<Rightarrow> string" where
  "parseLinkHeader linkHeader =
     (let parts = Split linkHeader CHR '';'' in
      if length parts < 2 then ''''
      else
        let urlPart = TrimSpace (parts ! 0) in
        if \<not> HasPrefix urlPart ''<'' \<or> \<not> HasSuffix urlPart ''>'' then ''''
        else next_link (tl parts) urlPart)"

section \<open>HTTP and JSON as the client sees them\<close>

text \<open>
  A request is the URL of a GET with the headers set on it, in the order of the
  \<open>Header.Set\<close> calls. A response is its status code, its headers and its body. The
  body is the JSON value it holds, \<open>None\<close> when it is empty or not JSON.
\<close>

datatype json =
    JNull
  | JBool bool
  | JNumber int
  | JString string
  | JArray "json list"
  | JObject "(string \<times> json) list"

record http_request =
  req_url :: string
  req_header :: "(string \<times> string) list"

record http_response =
  StatusCode :: nat
  Header :: "(string \<times> string) list"
  Body :: "json option"

text \<open>
  \<open>resp.Header.Get(key)\<close>: the value of the header, the empty string when absent.
  Go compares header names in their canonical form; here a header is named as the
  program names it in the call of \<open>Get\<close>.
\<close>

definition Header_Get :: "http_response \<Rightarrow> string \<Rightarrow> string" where
  "Header_Get resp key = (case map_of (Header resp) key of None \<Rightarrow> '''' | Some v \<Rightarrow> v)"

text \<open>
  The errors the client returns, one constructor for each error value built in
  tag-finder.go, named after its message; \<open>TransportError\<close> is an error of
  \<open>httpClient.Do\<close>, \<open>InvalidURL\<close> one of \<open>http.NewRequest\<close>, \<open>DecodeError\<close> one of
  the JSON decoder.
\<close>

datatype error =
    InvalidURL string
  | TransportError string
  | UnsupportedAuthType string
  | NoRealmInAuthHeader
  | TokenRequestFailedWithStatus nat
  | DecodeError
  | Unauthorized_without_challenge
  | FailedToGetAuthToken error
  | RegistryReturned nat
  | RegistryReturnedForTag nat string
  | NoDigestHeaderForTag string

text \<open>
  The network: which URLs \<open>http.NewRequest\<close> accepts, and what a call of
  \<open>httpClient.Do\<close> returns for a request, given the requests of the calls before it
  (a server may count its calls). The Go client follows redirects by itself, so the
  answer is the response that \<open>Do\<close> hands back, not each hop.
\<close>

record net =
  url_ok :: "string \<Rightarrow> bool"
  respond :: "http_request list \<Rightarrow> http_request \<Rightarrow> string + http_response"

text \<open>
  The client: the worker count and the cached token of the Go struct (the empty
  string is "no token"), and the requests of its calls of \<open>httpClient.Do\<close> and
  \<open>httpClient.Get\<close> so far, kept to count the calls.
\<close>

record RegistryClient =
  rc_workers :: int
  rc_token :: string
  rc_sent :: "http_request list"

definition NewRegistryClient :: "int \<Rightarrow> RegistryClient" where
  "NewRegistryClient n = \<lparr>rc_workers = n, rc_token = '''', rc_sent = []\<rparr>"

definition NewRequest :: "net \<Rightarrow> string \<Rightarrow> (string \<times> string) list \<Rightarrow> error + http_request" where
  "NewRequest env url hdrs =
     (if url_ok env url then Inr \<lparr>req_url = url, req_header = hdrs\<rparr> else Inl (InvalidURL url))"

definition Do :: "net \<Rightarrow> RegistryClient \<Rightarrow> http_request \<Rightarrow> (error + http_response) \<times> RegistryClient" where
  "Do env rc req =
     ((case respond env (rc_sent rc) req of Inl e \<Rightarrow> Inl (TransportError e) | Inr resp \<Rightarrow> Inr resp),
      rc\<lparr>rc_sent := rc_sent rc @ [req]\<rparr>)"

text \<open>\<open>httpClient.Get(url)\<close>: a request without headers.\<close>

definition Get :: "net \<Rightarrow> RegistryClient \<Rightarrow> string \<Rightarrow> (error + http_response) \<times> RegistryClient" where
  "Get env rc url =
     (case NewRequest env url [] of Inl e \<Rightarrow> (Inl e, rc) | Inr req \<Rightarrow> Do env rc req)"

subsection \<open>Decoding JSON into the two structs of the program\<close>

text \<open>
  \<open>encoding/json\<close> matches an object key with a struct field by name, ignoring case;
  its folding also takes the Kelvin sign (U+212A) for \<open>k\<close> and the long s (U+017F)
  for \<open>s\<close>. Keys of no field are skipped; \<open>null\<close> leaves a string as it is; a value
  of the wrong type is an error.
\<close>

definition lower :: "char \<Rightarrow> char" where
  "lower c =
     (case map_of (zip ''ABCDEFGHIJKLMNOPQRSTUVWXYZ'' ''abcdefghijklmnopqrstuvwxyz'') c of
        None \<Rightarrow> c | Some d \<Rightarrow> d)"

fun foldName :: "string \<Rightarrow> string" where
  "foldName (a # b # c # s) =
     (if a = CHR 0xE2 \<and> b = CHR 0x84 \<and> c = CHR 0xAA then CHR ''k'' # foldName s
      else if a = CHR 0xC5 \<and> b = CHR 0xBF then CHR ''s'' # foldName (c # s)
      else lower a # foldName (b # c # s))"
| "foldName [a, b] =
     (if a = CHR 0xC5 \<and> b = CHR 0xBF then ''s'' else [lower a, lower b])"
| "foldName [a] = [lower a]"
| "foldName [] = []"

fun set_string :: "json \<Rightarrow> string \<Rightarrow> string option" where
  "set_string (JString s) cur = Some s"
| "set_string JNull cur = Some cur"
| "set_string v cur = None"

text \<open>The struct \<open>tokenResp\<close>: the fields \<open>token\<close> and \<open>access_token\<close>.\<close>

fun decode_tokenResp_fields ::
  "(string \<times> json) list \<Rightarrow> string \<times> string \<Rightarrow> (string \<times> string) option" where
  "decode_tokenResp_fields [] r = Some r"
| "decode_tokenResp_fields ((k, v) # kvs) (tok, acc) =
     (if foldName k = ''token''
      then (case set_string v tok of None \<Rightarrow> None
            | Some t \<Rightarrow> decode_tokenResp_fields kvs (t, acc))
      else if foldName k = ''access_token''
      then (case set_string v acc of None \<Rightarrow> None
            | Some a \<Rightarrow> decode_tokenResp_fields kvs (tok, a))
      else decode_tokenResp_fields kvs (tok, acc))"

definition decode_tokenResp :: "json option \<Rightarrow> (string \<times> string) option" where
  "decode_tokenResp b =
     (case b of
        None \<Rightarrow> None
      | Some JNull \<Rightarrow> Some ('''', '''')
      | Some (JObject kvs) \<Rightarrow> decode_tokenResp_fields kvs ('''', '''')
      | Some _ \<Rightarrow> None)"





section \<open>Auth Manager\<close>

text \<open>
  The loop of \<open>getBearerToken\<close> over the comma-separated parameters of the challenge:
  a part \<open>key=value\<close> is stored with the quotes trimmed from the value, a later
  part with the same key replaces an earlier one, a part without \<open>=\<close> is skipped.
\<close>

fun auth_params :: "string list \<Rightarrow> (string \<rightharpoonup> string) \<Rightarrow> (string \<rightharpoonup> string)" where
  "auth_params [] params = params"
| "auth_params (part # rest) params =
     (let kv = SplitN2 part CHR ''='' in
      if length kv = 2 then auth_params rest (params(kv ! 0 \<mapsto> Trim (kv ! 1) ''\"''))
      else auth_params rest params)"

definition tokenURL_of :: "(string \<rightharpoonup> string) \<Rightarrow> string \<Rightarrow> string \<Rightarrow> string" where
  "tokenURL_of params realm repository =
     realm @ ''?''
     @ (case params ''service'' of Some service \<Rightarrow> ''service='' @ service @ ''&'' | None \<Rightarrow> '''')
     @ (case params ''scope'' of Some scope \<Rightarrow> ''scope='' @ scope
        | None \<Rightarrow> ''scope=repository:'' @ repository @ '':pull'')"

definition getBearerToken ::
  "net \<Rightarrow> RegistryClient \<Rightarrow> string \<Rightarrow> string \<Rightarrow> (error + string) \<times> RegistryClient" where
  "getBearerToken env rc authHeader repository =
     (if rc_token rc \<noteq> '''' then (Inr (rc_token rc), rc)
      else
        let parts = Split authHeader CHR '' '' in
        if length parts < 2 \<or> parts ! 0 \<noteq> ''Bearer''
        then (Inl (UnsupportedAuthType (parts ! 0)), rc)
        else
          let params = auth_params (Split (parts ! 1) CHR '','') Map.empty in
          case params ''realm'' of
            None \<Rightarrow> (Inl NoRealmInAuthHeader, rc)
          | Some realm \<Rightarrow>
              (case Get env rc (tokenURL_of params realm repository) of
                 (Inl e, rc1) \<Rightarrow> (Inl e, rc1)
               | (Inr resp, rc1) \<Rightarrow>
                   if StatusCode resp \<noteq> 200
                   then (Inl (TokenRequestFailedWithStatus (StatusCode resp)), rc1)
                   else
                     (case decode_tokenResp (Body resp) of
                        None \<Rightarrow> (Inl DecodeError, rc1)
                      | Some (tok, acc) \<Rightarrow>
                          let token = (if tok = '''' then acc else tok)
                          in (Inr token, rc1\<lparr>rc_token := token\<rparr>))))"

section \<open>Tag Lister\<close>

text \<open>The header with the cached token, when there is one.\<close>

definition cached_auth :: "RegistryClient \<Rightarrow> (string \<times> string) list" where
  "cached_auth rc =
     (if rc_token rc \<noteq> '''' then [(''Authorization'', ''Bearer '' @ rc_token rc)] else [])"

text \<open>
  The part that \<open>fetchTagsPage\<close> and \<open>fetchManifestDigest\<close> share word for word: send
  the request with the cached token; on 401 read the challenge, get a token, and
  send the request again with that token. The result is the response on which the
  caller goes on. \<open>hdrs\<close> are the headers set besides \<open>Authorization\<close>.
\<close>

definition request_with_auth ::
  "net \<Rightarrow> RegistryClient \<Rightarrow> string \<Rightarrow> (string \<times> string) list \<Rightarrow> string \<Rightarrow>
     (error + http_response) \<times> RegistryClient" where
  "request_with_auth env rc url hdrs repository =
     (case NewRequest env url (hdrs @ cached_auth rc) of
        Inl e \<Rightarrow> (Inl e, rc)
      | Inr req \<Rightarrow>
          (case Do env rc req of
             (Inl e, rc1) \<Rightarrow> (Inl e, rc1)
           | (Inr resp, rc1) \<Rightarrow>
               if StatusCode resp = 401
               then
                 let authHeader = Header_Get resp ''WWW-Authenticate'' in
                 if authHeader = '''' then (Inl Unauthorized_without_challenge, rc1)
                 else
                   (case getBearerToken env rc1 authHeader repository of
                      (Inl e, rc2) \<Rightarrow> (Inl (FailedToGetAuthToken e), rc2)
                    | (Inr token, rc2) \<Rightarrow>
                        (case NewRequest env url
                                (hdrs @ [(''Authorization'', ''Bearer '' @ token)]) of
                           Inl e \<Rightarrow> (Inl e, rc2)
                         | Inr req2 \<Rightarrow> Do env rc2 req2))
               else (Inr resp, rc1)))"





section \<open>Digest Checker\<close>

definition accept_header :: "string \<times> string" where
  "accept_header =
     (''Accept'',
      ''application/vnd.docker.distribution.manifest.v2+json''
      @ '', '' @ ''application/vnd.docker.distribution.manifest.list.v2+json''
      @ '', '' @ ''application/vnd.oci.image.manifest.v1+json''
      @ '', '' @ ''application/vnd.oci.image.index.v1+json'')"

definition manifest_url :: "string \<Rightarrow> string \<Rightarrow> string \<Rightarrow> string" where
  "manifest_url registryURL repository tag =
     registryURL @ ''/v2/'' @ repository @ ''/manifests/'' @ tag"

definition fetchManifestDigest ::
  "net \<Rightarrow> RegistryClient \<Rightarrow> string \<Rightarrow> string \<Rightarrow> string \<Rightarrow>
     (error + string) \<times> RegistryClient" where
  "fetchManifestDigest env rc registryURL repository tag =
     (case request_with_auth env rc (manifest_url registryURL repository tag)
             [accept_header] repository of
        (Inl e, rc') \<Rightarrow> (Inl e, rc')
      | (Inr resp, rc') \<Rightarrow>
          if StatusCode resp \<noteq> 200
          then (Inl (RegistryReturnedForTag (StatusCode resp) tag), rc')
          else
            let digest = Header_Get resp ''Docker-Content-Digest'' in
            if digest = '''' then (Inl (NoDigestHeaderForTag tag), rc')
            else (Inr digest, rc'))"

record TagInfo =
  Tag :: string
  Digest :: string
  Err :: "error option"

text \<open>What a worker sends for a tag: the pair returned by \<open>fetchManifestDigest\<close>.\<close>

definition tag_info :: "string \<Rightarrow> error + string \<Rightarrow> TagInfo" where
  "tag_info tag r =
     (case r of Inl e \<Rightarrow> \<lparr>Tag = tag, Digest = '''', Err = Some e\<rparr>
      | Inr digest \<Rightarrow> \<lparr>Tag = tag, Digest = digest, Err = None\<rparr>)"

text \<open>
  The body of a worker goroutine of \<open>FetchDigests\<close>, run on the jobs it receives in
  turn. Before each job the worker looks at the context: \<open>ctx = None\<close> is a context
  that is never cancelled, \<open>ctx = Some k\<close> one that is found cancelled from the
  \<open>k\<close>-th look on, where the worker returns. Otherwise it fetches the digest and
  sends the result, whether the fetch failed or not, and turns to the next job.
\<close>

fun worker ::
  "net \<Rightarrow> nat option \<Rightarrow> RegistryClient \<Rightarrow> string \<Rightarrow> string \<Rightarrow> string list \<Rightarrow>
     TagInfo list \<times> RegistryClient" where
  "worker env ctx rc registryURL repository [] = ([], rc)"
| "worker env ctx rc registryURL repository (tag # jobs) =
     (if ctx = Some 0 then ([], rc)
      else
        (case fetchManifestDigest env rc registryURL repository tag of
           (r, rc') \<Rightarrow>
             (case worker env (map_option (\<lambda>k. k - 1) ctx) rc' registryURL repository jobs of
                (infos, rc'') \<Rightarrow> (tag_info tag r # infos, rc''))))"

section \<open>The situations of the claims, and servers for concrete runs\<close>



text \<open>The first request and the retry of \<open>fetchTagsPage\<close> and \<open>fetchManifestDigest\<close>.\<close>

definition first_request :: "RegistryClient \<Rightarrow> string \<Rightarrow> (string \<times> string) list \<Rightarrow> http_request" where
  "first_request rc url hdrs = \<lparr>req_url = url, req_header = hdrs @ cached_auth rc\<rparr>"



text \<open>
  A registry that wants a token and then refuses it: a request without the header
  \<open>Authorization: Bearer abc\<close> gets 401 with a challenge, a request with it gets
  403; the token endpoint of the challenge hands out the token \<open>abc\<close>.
\<close>

definition refusing_challenge :: string where
  "refusing_challenge = ''Bearer realm=\"https://auth.example/token\",service=\"registry\"''"





subsection \<open>The three-page registry of \<open>TestFetchTagsList\<close>\<close>






text \<open>
  The response on which \<open>fetchManifestDigest\<close> goes on for a tag: the answer to its
  request, or the answer to the retry after a 401.
\<close>

definition manifest_response ::
  "net \<Rightarrow> RegistryClient \<Rightarrow> string \<Rightarrow> string \<Rightarrow> string \<Rightarrow> error + http_response" where
  "manifest_response env rc registryURL repository tag =
     fst (request_with_auth env rc (manifest_url registryURL repository tag)
            [accept_header] repository)"

text \<open>The result that carries the error for a missing digest header.\<close>

definition missing_digest_info :: "string \<Rightarrow> TagInfo" where
  "missing_digest_info tag =
     \<lparr>Tag = tag, Digest = '''', Err = Some (NoDigestHeaderForTag tag)\<rparr>"

text \<open>
  Two networks that differ in nothing but the digest header of a tag: \<open>env'\<close>
  answers as \<open>env\<close> does, except that to a manifest request for \<open>url\<close> (a request to
  \<open>url\<close> that carries the \<open>Accept\<close> header) which \<open>env\<close> answers with status 200,
  \<open>env'\<close> may answer with any response of status 200 that has no
  \<open>Docker-Content-Digest\<close> header, whatever its body.
\<close>

definition digest_header_dropped :: "net \<Rightarrow> net \<Rightarrow> string \<Rightarrow> bool" where
  "digest_header_dropped env env' url \<longleftrightarrow>
     url_ok env' = url_ok env \<and>
     (\<forall>sent req.
        respond env' sent req = respond env sent req
        \<or> (req_url req = url \<and> accept_header \<in> set (req_header req)
            \<and> (case respond env sent req of
                  Inl e \<Rightarrow> False
                | Inr r \<Rightarrow>
                    StatusCode r = 200 \<and>
                    (case respond env' sent req of
                       Inl e' \<Rightarrow> False
                     | Inr r' \<Rightarrow>
                         StatusCode r' = 200 \<and>
                         Header_Get r' ''Docker-Content-Digest'' = ''''))))"

text \<open>
  Two results are the same, or the second is a result for \<open>tag\<close> and the first is
  the missing-header error for \<open>tag\<close>.
\<close>

definition same_or_missing :: "string \<Rightarrow> TagInfo \<Rightarrow> TagInfo \<Rightarrow> bool" where
  "same_or_missing tag info' info \<longleftrightarrow>
     info' = info \<or> (Tag info = tag \<and> info' = missing_digest_info tag)"

text \<open>
  Two registries that want a token first: a request without the header
  \<open>Authorization: Bearer abc\<close> gets 401 with a challenge, and the token endpoint of
  the challenge hands out \<open>abc\<close>. With the token, \<open>digest_registry\<close> answers every
  manifest request with a digest header. \<open>headerless_registry\<close> does the same,
  except that the manifest of the tag \<open>broken\<close> (the answer to a request for
  it with the \<open>Accept\<close> header) comes without the header, and with a digest in the
  body only.
\<close>

definition behind_token :: "http_request \<Rightarrow> http_response \<Rightarrow> string + http_response" where
  "behind_token req resp =
     (if HasPrefix (req_url req) ''https://auth.example/token''
      then Inr \<lparr>StatusCode = 200, Header = [],
                Body = Some (JObject [(''token'', JString ''abc'')])\<rparr>
      else if map_of (req_header req) ''Authorization'' = Some ''Bearer abc''
      then Inr resp
      else Inr \<lparr>StatusCode = 401, Header = [(''WWW-Authenticate'', refusing_challenge)],
                Body = None\<rparr>)"

definition digest_registry :: net where
  "digest_registry =
     \<lparr>url_ok = (\<lambda>url. True),
      respond = (\<lambda>sent req.
        behind_token req
          \<lparr>StatusCode = 200, Header = [(''Docker-Content-Digest'', ''sha256:aaaa'')],
           Body = None\<rparr>)\<rparr>"

definition headerless_registry :: net where
  "headerless_registry =
     \<lparr>url_ok = (\<lambda>url. True),
      respond = (\<lambda>sent req.
        behind_token req
          (if req_url req = ''https://r.example/v2/repo/manifests/broken''
                \<and> accept_header \<in> set (req_header req)
           then \<lparr>StatusCode = 200, Header = [],
                 Body = Some (JObject [(''digest'', JString ''sha256:bbbb'')])\<rparr>
           else \<lparr>StatusCode = 200, Header = [(''Docker-Content-Digest'', ''sha256:aaaa'')],
                 Body = None\<rparr>))\<rparr>"

section \<open>The UI program and \<open>main\<close>\<close>

text \<open>
  The messages of the Bubble Tea program and the commands that \<open>Update\<close> returns.
  Of the model, the fields that \<open>Update\<close> reads or writes are kept; the spinner and
  the progress bar only render. \<open>m_cancelled\<close> stands for the context of the model:
  it is set when \<open>cancel\<close> is called. The counters are Go \<open>int\<close>s that count
  messages, far from their range, and are modelled as \<open>int\<close>. \<open>TickMsg\<close> is a tick
  of the spinner, answered with the command for its next tick; to any other message
  the spinner answers no command. The channel that \<open>Update\<close> makes for the results
  has the capacity \<open>m.workers*2\<close>, taken to be in the range that \<open>make\<close> accepts.
\<close>

datatype msg =
    KeyMsg string
  | tagsMsg "string list" "error option"
  | checkMsg string string "error option"
  | TickMsg
  | OtherMsg

datatype cmd = Quit | StartWorkerPool | WaitForNextResult | SpinnerCmd | NoCmd

record model =
  m_image :: string
  m_targetDigest :: string
  m_tags :: "string list"
  m_matchingTags :: "string list"
  m_current :: int
  m_total :: int
  m_done :: bool
  m_err :: "error option"
  m_workers :: int
  m_cancelled :: bool

definition initialModel :: "string \<Rightarrow> string \<Rightarrow> int \<Rightarrow> model" where
  "initialModel img digest workers =
     \<lparr>m_image = img, m_targetDigest = digest, m_tags = [], m_matchingTags = [],
      m_current = 0, m_total = 0, m_done = False, m_err = None, m_workers = workers,
      m_cancelled = False\<rparr>"

fun Update :: "model \<Rightarrow> msg \<Rightarrow> model \<times> cmd" where
  "Update m (KeyMsg k) =
     (if k = ''ctrl+c'' \<or> k = ''q'' then (m\<lparr>m_cancelled := True\<rparr>, Quit) else (m, NoCmd))"
| "Update m (tagsMsg tags err) =
     (case err of
        Some e \<Rightarrow> (m\<lparr>m_err := Some e, m_done := True\<rparr>, Quit)
      | None \<Rightarrow>
          let m1 = m\<lparr>m_tags := tags, m_total := int (length tags)\<rparr> in
          if m_total m1 > 0 then (m1, StartWorkerPool)
          else (m1\<lparr>m_done := True\<rparr>, Quit))"
| "Update m (checkMsg tag digest err) =
     (let m1 = (if err = None \<and> digest = m_targetDigest m
                then m\<lparr>m_matchingTags := m_matchingTags m @ [tag]\<rparr> else m);
          m2 = m1\<lparr>m_current := m_current m1 + 1\<rparr>
      in if m_current m2 \<ge> m_total m2 then (m2\<lparr>m_done := True\<rparr>, Quit)
         else (m2, WaitForNextResult))"
| "Update m TickMsg = (m, SpinnerCmd)"
| "Update m OtherMsg = (m, NoCmd)"

text \<open>
  \<open>p.Run()\<close>: the runtime hands the messages to \<open>Update\<close> one after the other and
  returns the model when \<open>Update\<close> answers \<open>tea.Quit\<close>. \<open>None\<close> is a program that
  has not quit after the messages given.
\<close>

fun Run :: "model \<Rightarrow> msg list \<Rightarrow> model option" where
  "Run m [] = None"
| "Run m (x # xs) =
     (case Update m x of (m', c) \<Rightarrow> if c = Quit then Some m' else Run m' xs)"

text \<open>
  \<open>main\<close> after \<open>flag.Parse\<close>: the two flags, the positional arguments, the messages
  the runtime delivers to the program, and the error that \<open>p.Run()\<close> returns when
  the runtime itself fails. The result is the exit code of the process, \<open>None\<close>
  while the program has not quit. \<open>main\<close> drops the model that \<open>p.Run()\<close> returns.
\<close>

definition main :: "bool \<Rightarrow> int \<Rightarrow> string list \<Rightarrow> msg list \<Rightarrow> string option \<Rightarrow> nat option" where
  "main versionFlag workers args msgs run_err =
     (if versionFlag then Some 0
      else if length args < 2 then Some 1
      else if workers < 1 then Some 1
      else
        (case run_err of
           Some e \<Rightarrow> Some 1
         | None \<Rightarrow>
             (case Run (initialModel (main_image (args ! 0)) (main_digest (args ! 1)) workers)
                     msgs of
                None \<Rightarrow> None
              | Some m \<Rightarrow> Some 0)))"

text \<open>The claim of C1 about a finished run: 0 with a match, 1 without or with an error.\<close>

definition claimed_exit_code :: "model \<Rightarrow> nat" where
  "claimed_exit_code m = (if m_matchingTags m \<noteq> [] \<and> m_err m = None then 0 else 1)"

section \<open>The worker pool of \<open>FetchDigests\<close>\<close>

text \<open>
  \<open>FetchDigests\<close> runs the caller's goroutine, \<open>N\<close> worker goroutines and the
  goroutine that waits for them. Their steps interleave; channel operations are
  atomic. The state of the pool:
  \<^item> \<open>p_unsent\<close>: the tags that the loop \<open>for _, tag := range tags\<close> has still to send;
  \<^item> \<open>p_jobs\<close>, \<open>p_jobs_closed\<close>: the buffer of the channel \<open>jobs\<close> (its capacity is
    the number of tags, so a send never blocks) and whether it is closed;
  \<^item> \<open>p_workers\<close>: for each worker, where it stands;
  \<^item> \<open>p_results\<close>, \<open>p_closed\<close>: all that has been sent on \<open>resultsChan\<close>, in order
    (the receiver is taken to keep reading), and whether it is closed;
  \<^item> \<open>p_cancelled\<close>: whether \<open>ctx.Done()\<close> is closed.
\<close>

text \<open>
  A worker waits at \<open>range jobs\<close>, or holds a tag before the \<open>select\<close>, or holds a
  tag in the \<open>default\<close> branch (fetching the digest, then sending the result), or
  has returned (its deferred \<open>wg.Done()\<close> has run).
\<close>

datatype wstate = Waiting | Selecting string | Fetching string | Exited

record pool =
  p_unsent :: "string list"
  p_jobs :: "string list"
  p_jobs_closed :: bool
  p_workers :: "wstate list"
  p_results :: "TagInfo list"
  p_closed :: bool
  p_cancelled :: bool

text \<open>
  The steps: the caller sends the next tag to \<open>jobs\<close> or closes \<open>jobs\<close>; worker \<open>w\<close>
  receives a job, finds \<open>jobs\<close> closed and drained, runs its \<open>select\<close>, or sends the
  result of its fetch (\<open>r\<close> is what \<open>fetchManifestDigest\<close> returned); the waiting
  goroutine closes \<open>resultsChan\<close>; the context is cancelled.
\<close>

datatype event =
    SendJob
  | CloseJobs
  | Receive nat
  | RangeEnd nat
  | Select nat
  | SendResult nat "error + string"
  | CloseResults
  | Cancel

text \<open>
  The pool when \<open>FetchDigests\<close> has started its workers: \<open>N\<close> is \<open>rc.workers\<close>
  (no worker is started when it is not positive), nothing is sent yet.
\<close>

definition FetchDigests_start :: "nat \<Rightarrow> string list \<Rightarrow> pool" where
  "FetchDigests_start N tags =
     \<lparr>p_unsent = tags, p_jobs = [], p_jobs_closed = False, p_workers = replicate N Waiting,
      p_results = [], p_closed = False, p_cancelled = False\<rparr>"

fun pool_step :: "event \<Rightarrow> pool \<Rightarrow> pool option" where
  "pool_step SendJob s =
     (case p_unsent s of
        [] \<Rightarrow> None
      | tag # rest \<Rightarrow> Some (s\<lparr>p_unsent := rest, p_jobs := p_jobs s @ [tag]\<rparr>))"
| "pool_step CloseJobs s =
     (if p_unsent s = [] \<and> \<not> p_jobs_closed s then Some (s\<lparr>p_jobs_closed := True\<rparr>) else None)"
| "pool_step (Receive w) s =
     (if w < length (p_workers s) \<and> p_workers s ! w = Waiting
      then (case p_jobs s of
              [] \<Rightarrow> None
            | tag # rest \<Rightarrow>
                Some (s\<lparr>p_jobs := rest, p_workers := (p_workers s)[w := Selecting tag]\<rparr>))
      else None)"
| "pool_step (RangeEnd w) s =
     (if w < length (p_workers s) \<and> p_workers s ! w = Waiting
         \<and> p_jobs s = [] \<and> p_jobs_closed s
      then Some (s\<lparr>p_workers := (p_workers s)[w := Exited]\<rparr>)
      else None)"
| "pool_step (Select w) s =
     (if w < length (p_workers s)
      then (case p_workers s ! w of
              Selecting tag \<Rightarrow>
                Some (s\<lparr>p_workers :=
                        (p_workers s)[w := (if p_cancelled s then Exited else Fetching tag)]\<rparr>)
            | _ \<Rightarrow> None)
      else None)"
| "pool_step (SendResult w r) s =
     (if w < length (p_workers s)
      then (case p_workers s ! w of
              Fetching tag \<Rightarrow>
                Some (s\<lparr>p_results := p_results s @ [tag_info tag r],
                        p_workers := (p_workers s)[w := Waiting]\<rparr>)
            | _ \<Rightarrow> None)
      else None)"
| "pool_step CloseResults s =
     (if p_jobs_closed s \<and> \<not> p_closed s \<and> list_all (\<lambda>w. w = Exited) (p_workers s)
      then Some (s\<lparr>p_closed := True\<rparr>)
      else None)"
| "pool_step Cancel s = Some (s\<lparr>p_cancelled := True\<rparr>)"

text \<open>A run of the pool along a schedule; \<open>None\<close> when a step of it is not possible.\<close>

fun run_pool :: "event list \<Rightarrow> pool \<Rightarrow> pool option" where
  "run_pool [] s = Some s"
| "run_pool (e # es) s = (case pool_step e s of None \<Rightarrow> None | Some s' \<Rightarrow> run_pool es s')"

text \<open>The tags the workers hold, and the tags of the results sent.\<close>

fun holding :: "wstate \<Rightarrow> string multiset" where
  "holding (Selecting tag) = {#tag#}"
| "holding (Fetching tag) = {#tag#}"
| "holding w = {#}"

definition held :: "wstate list \<Rightarrow> string multiset" where
  "held ws = (\<Sum>w\<in>#mset ws. holding w)"

definition result_tags :: "pool \<Rightarrow> string multiset" where
  "result_tags s = mset (map Tag (p_results s))"

text \<open>The steps a part of the pool has still to take, when nothing is cancelled.\<close>

fun steps_left :: "wstate \<Rightarrow> nat" where
  "steps_left Waiting = 1"
| "steps_left (Selecting tag) = 3"
| "steps_left (Fetching tag) = 2"
| "steps_left Exited = 0"

definition pool_steps_left :: "pool \<Rightarrow> nat" where
  "pool_steps_left s =
     4 * length (p_unsent s) + 3 * length (p_jobs s) + (if p_jobs_closed s then 0 else 1)
     + sum_list (map steps_left (p_workers s)) + (if p_closed s then 0 else 1)"

text \<open>
  What holds in every state of a run of the pool with \<open>N\<close> workers on \<open>tags\<close>: no
  tag is made up; while nothing is cancelled every tag is in exactly one place
  (not yet sent, in \<open>jobs\<close>, held by a worker, or in a result); \<open>jobs\<close> is closed
  only after the last send; without cancellation a worker returns only from a closed
  and drained \<open>jobs\<close>; and \<open>resultsChan\<close> is closed only when all workers have
  returned.
\<close>

definition pool_inv :: "nat \<Rightarrow> string list \<Rightarrow> pool \<Rightarrow> bool" where
  "pool_inv N tags s \<longleftrightarrow>
     length (p_workers s) = N
     \<and> mset (p_unsent s) + mset (p_jobs s) + held (p_workers s) + result_tags s \<subseteq># mset tags
     \<and> (\<not> p_cancelled s \<longrightarrow>
          mset (p_unsent s) + mset (p_jobs s) + held (p_workers s) + result_tags s = mset tags)
     \<and> (p_jobs_closed s \<longrightarrow> p_unsent s = [])
     \<and> (\<not> p_cancelled s \<and> Exited \<in> set (p_workers s) \<longrightarrow> p_jobs_closed s \<and> p_jobs s = [])
     \<and> (p_closed s \<longrightarrow> p_jobs_closed s \<and> list_all (\<lambda>w. w = Exited) (p_workers s))"

text \<open>
  A schedule of two workers on the tags \<open>a\<close> and \<open>b\<close>: worker 0 takes \<open>a\<close> while the
  caller is still sending, worker 1 takes \<open>b\<close> and finishes first; the fetch of
  \<open>a\<close> fails with 404.
\<close>

definition two_worker_schedule :: "event list" where
  "two_worker_schedule =
     [SendJob, Receive 0, SendJob, Select 0, CloseJobs, Receive 1, Select 1,
      SendResult 1 (Inr ''sha256:bb''), SendResult 0 (Inl (RegistryReturnedForTag 404 ''a'')),
      RangeEnd 0, RangeEnd 1, CloseResults]"

section \<open>Facts about the string primitives\<close>

lemma SplitN2_absent: "c \<notin> set s \<Longrightarrow> SplitN2 s c = [s]"
  by (simp add: SplitN2_def)

lemma SplitN2_present: "c \<notin> set a \<Longrightarrow> SplitN2 (a @ c # b) c = [a, b]"
proof -
  assume a: "c \<notin> set a"
  then have "takeWhile (\<lambda>x. x \<noteq> c) (a @ c # b) = a"
    by (induction a) auto
  moreover from a have "dropWhile (\<lambda>x. x \<noteq> c) (a @ c # b) = c # b"
    by (induction a) auto
  ultimately show ?thesis by (simp add: SplitN2_def)
qed

lemma suffix_single: "suffix [c] s \<longleftrightarrow> s \<noteq> [] \<and> last s = c"
  by (cases s rule: rev_cases) (auto simp: suffix_def)

lemma prefix_single: "prefix [c] s \<longleftrightarrow> s \<noteq> [] \<and> hd s = c"
  by (cases s) auto

lemma Contains_single: "Contains s [c] \<longleftrightarrow> c \<in> set s"
  by (induction s) (auto simp: HasPrefix_def)

section \<open>Reference Resolver: results\<close>

lemma repo_ok_no_slash:
  assumes "CHR ''/'' \<notin> set img"
  shows "repository_ok (repository_of (parseImageReference img)) \<longleftrightarrow> image_ok img"
proof -
  have p: "repository_of (parseImageReference img) = ''library/'' @ img"
    using assms by (simp add: parseImageReference_def SplitN2_absent repository_of_def)
  have d: "dropWhile (\<lambda>x. x \<noteq> CHR ''/'') img = []" using assms by auto
  have i: "image_ok img \<longleftrightarrow> img \<noteq> []"
  proof (cases "img = []")
    case True
    then show ?thesis by (simp add: image_ok_def)
  next
    case False
    then have "last img \<in> set img" by simp
    with assms have "last img \<noteq> CHR ''/''" by auto
    with False show ?thesis
      by (simp add: image_ok_def d HasPrefix_def HasSuffix_def suffix_single)
  qed
  have "repository_ok (''library/'' @ img) \<longleftrightarrow> img \<noteq> []"
  proof (cases "img = []")
    case True
    then show ?thesis by (simp add: repository_ok_def HasPrefix_def HasSuffix_def suffix_single)
  next
    case False
    then have "last img \<in> set img" by simp
    with assms have "last img \<noteq> CHR ''/''" by auto
    with False show ?thesis
      by (simp add: repository_ok_def HasPrefix_def HasSuffix_def suffix_single)
  qed
  with p i show ?thesis by simp
qed

lemma repo_ok_slash:
  assumes "CHR ''/'' \<notin> set reg"
  shows "repository_ok (repository_of (parseImageReference (reg @ CHR ''/'' # rest)))
     \<longleftrightarrow> image_ok (reg @ CHR ''/'' # rest)"
proof -
  let ?img = "reg @ CHR ''/'' # rest"
  have d: "dropWhile (\<lambda>x. x \<noteq> CHR ''/'') ?img = CHR ''/'' # rest"
    using assms by (induction reg) auto
  have i: "image_ok ?img \<longleftrightarrow> rest \<noteq> [] \<and> last rest \<noteq> CHR ''/'' \<and> hd rest \<noteq> CHR ''/''"
    by (auto simp: image_ok_def d HasPrefix_def HasSuffix_def suffix_single prefix_single)
  have r: "repository_of (parseImageReference ?img) =
      (if reg = ''docker.io'' \<and> CHR ''/'' \<notin> set rest then ''library/'' @ rest else rest)"
    using assms by (simp add: parseImageReference_def SplitN2_present repository_of_def Contains_single Let_def)
  define repo where "repo = repository_of (parseImageReference ?img)"
  have k: "repository_ok repo \<longleftrightarrow> rest \<noteq> [] \<and> last rest \<noteq> CHR ''/'' \<and> hd rest \<noteq> CHR ''/''"
  proof (cases "reg = ''docker.io'' \<and> CHR ''/'' \<notin> set rest")
    case True
    then have e: "repo = ''library/'' @ rest" using r repo_def by simp
    have n: "rest \<noteq> [] \<longrightarrow> last rest \<noteq> CHR ''/'' \<and> hd rest \<noteq> CHR ''/''"
    proof
      assume "rest \<noteq> []"
      then have "last rest \<in> set rest" "hd rest \<in> set rest" by simp_all
      with True show "last rest \<noteq> CHR ''/'' \<and> hd rest \<noteq> CHR ''/''" by auto
    qed
    have "repository_ok repo \<longleftrightarrow> rest \<noteq> []"
      using n unfolding e
      by (auto simp: repository_ok_def HasPrefix_def HasSuffix_def suffix_single)
    with n show ?thesis by blast
  next
    case False
    then have e: "repo = rest" using r repo_def by auto
    show ?thesis unfolding e
      by (auto simp: repository_ok_def HasPrefix_def HasSuffix_def suffix_single prefix_single)
  qed
  show ?thesis using k i repo_def by simp
qed

text \<open>
  Claim C5: \<open>parseImageReference\<close> never returns an error; for every image string
  the error result is \<open>nil\<close>.
\<close>

theorem parseImageReference_no_error: "error_of (parseImageReference img) = None"
  by (simp add: parseImageReference_def error_of_def Let_def)

text \<open>
  Claim C3 as stated fails: the empty image gives the repository \<open>library/\<close>
  (trailing slash), an image ending at its first slash gives the empty repository,
  and a doubled first slash gives a repository with a leading slash.
\<close>

theorem parseImageReference_repository_counterexample:
  "\<not> repository_ok (repository_of (parseImageReference ''''))
   \<and> \<not> repository_ok (repository_of (parseImageReference ''registry.example.com/''))
   \<and> \<not> repository_ok (repository_of (parseImageReference ''ghcr.io//owner''))"
  by (simp add: parseImageReference_def repository_ok_def repository_of_def SplitN2_def
      HasPrefix_def HasSuffix_def Let_def suffix_single)

text \<open>
  Claim C3, amended: the repository produced by \<open>parseImageReference\<close> is non-empty
  with no leading and no trailing slash exactly when the image string is non-empty,
  does not end in a slash, and its first slash is not followed at once by another.
\<close>

theorem parseImageReference_repository_ok:
  "repository_ok (repository_of (parseImageReference img)) \<longleftrightarrow> image_ok img"
proof (cases "CHR ''/'' \<in> set img")
  case True
  then obtain reg rest where "img = reg @ CHR ''/'' # rest" "CHR ''/'' \<notin> set reg"
    using split_list_first[of "CHR ''/''" img] by blast
  then show ?thesis using repo_ok_slash by simp
next
  case False
  then show ?thesis by (rule repo_ok_no_slash)
qed

text \<open>Witness for C3: \<open>docker.io/nginx\<close> is such an image and its repository is well-formed.\<close>

theorem parseImageReference_repository_ok_witness:
  "image_ok ''docker.io/nginx''
   \<and> repository_ok (repository_of (parseImageReference ''docker.io/nginx''))"
proof -
  have "image_ok ''docker.io/nginx''"
    by (simp add: image_ok_def HasPrefix_def HasSuffix_def suffix_single)
  then show ?thesis
    using parseImageReference_repository_ok[of "''docker.io/nginx''"] by blast
qed

lemma main_image_strip: "main_image (''docker://'' @ s) = s"
  by (simp add: main_image_def TrimPrefix_def HasPrefix_def)

lemma main_image_keep: "\<not> HasPrefix s ''docker://'' \<Longrightarrow> main_image s = s"
  by (simp add: main_image_def TrimPrefix_def)

lemma parse_docker_scheme:
  "parseImageReference (''docker://'' @ s) = (''https://docker:'', ''/'' @ s, None)"
proof -
  have "SplitN2 (''docker://'' @ s) CHR ''/'' = [''docker:'', ''/'' @ s]"
    by (simp add: SplitN2_def)
  then show ?thesis by (simp add: parseImageReference_def)
qed

text \<open>
  Claim C10: \<open>main\<close> strips one leading \<open>docker://\<close> before the reference is
  resolved, so the argument \<open>docker://s\<close> resolves to what the resolver gives for
  \<open>s\<close>; the resolver alone would take \<open>docker:\<close> for a generic registry host
  and \<open>/s\<close> for the repository. When \<open>s\<close> does not itself begin with
  \<open>docker://\<close>, the arguments \<open>docker://s\<close> and \<open>s\<close> resolve alike.
\<close>

theorem main_strips_docker_scheme:
  "parseImageReference (main_image (''docker://'' @ s)) = parseImageReference s
   \<and> parseImageReference (''docker://'' @ s) = (''https://docker:'', ''/'' @ s, None)
   \<and> (\<not> HasPrefix s ''docker://'' \<longrightarrow>
        parseImageReference (main_image (''docker://'' @ s)) = parseImageReference (main_image s))"
  using main_image_strip[of s] main_image_keep[of s] parse_docker_scheme[of s] by presburger

text \<open>Witness for C10 at the image \<open>nginx\<close>.\<close>

theorem main_strips_docker_scheme_witness:
  "\<not> HasPrefix ''nginx'' ''docker://'' \<and>
   parseImageReference (main_image ''docker://nginx'') = parseImageReference (main_image ''nginx'')"
proof -
  have h: "\<not> HasPrefix ''nginx'' ''docker://''" by (simp add: HasPrefix_def)
  have a: "''docker://'' @ ''nginx'' = ''docker://nginx''" by simp
  from main_strips_docker_scheme[of "''nginx''"] h show ?thesis unfolding a by blast
qed

section \<open>Tag Lister: the Link header, results\<close>

lemma parseLinkHeader_example:
  "parseLinkHeader ''</v2/repo/tags/list?n=100&last=tag99>; rel=\"next\"''
     = ''/v2/repo/tags/list?n=100&last=tag99''"
  by code_simp

lemma prev_link_has_no_next:
  "\<not> Contains ''</v2/repo/tags/list?n=100&last=tag99>; rel=\"prev\"'' rel_next"
  by code_simp

lemma Contains_iff: "Contains s sub \<longleftrightarrow> (\<exists>a b. s = a @ sub @ b)"
proof (induction s)
  case Nil
  then show ?case by auto
next
  case (Cons x xs)
  show ?case
  proof
    assume "Contains (x # xs) sub"
    then consider "prefix sub (x # xs)" | "Contains xs sub" by (auto simp: HasPrefix_def)
    then show "\<exists>a b. x # xs = a @ sub @ b"
    proof cases
      case 1
      then obtain b where "x # xs = sub @ b" by (auto simp: prefix_def)
      then have "x # xs = [] @ sub @ b" by simp
      then show ?thesis by blast
    next
      case 2
      then obtain a b where "xs = a @ sub @ b" using Cons.IH by blast
      then have "x # xs = (x # a) @ sub @ b" by simp
      then show ?thesis by blast
    qed
  next
    assume "\<exists>a b. x # xs = a @ sub @ b"
    then obtain a b where e: "x # xs = a @ sub @ b" by blast
    show "Contains (x # xs) sub"
    proof (cases a)
      case Nil
      with e have "prefix sub (x # xs)" by (simp add: prefix_def)
      then show ?thesis by (simp add: HasPrefix_def)
    next
      case (Cons y ys)
      with e have "xs = ys @ sub @ b" by simp
      then have "Contains xs sub" using Cons.IH by blast
      then show ?thesis by simp
    qed
  qed
qed

lemma Split_pieces:
  "Split s c = p # ps \<Longrightarrow> prefix p s \<and> (\<forall>part \<in> set ps. \<exists>a b. s = a @ part @ b)"
proof (induction s arbitrary: p ps)
  case Nil
  then show ?case by simp
next
  case (Cons x xs)
  show ?case
  proof (cases "Split xs c")
    case Nil
    with Cons.prems show ?thesis by (auto split: if_splits)
  next
    case (Cons q qs)
    from Cons.IH[OF Cons] have q: "prefix q xs"
      and qs: "\<And>part. part \<in> set qs \<Longrightarrow> \<exists>a b. xs = a @ part @ b" by blast+
    have up: "\<exists>a b. x # xs = a @ part @ b" if "\<exists>a b. xs = a @ part @ b" for part
    proof -
      from that obtain a b where "xs = a @ part @ b" by blast
      then have "x # xs = (x # a) @ part @ b" by simp
      then show ?thesis by blast
    qed
    show ?thesis
    proof (cases "x = c")
      case True
      with Cons.prems Cons have e: "p = []" "ps = q # qs" by simp_all
      from q obtain b where "xs = [] @ q @ b" by (auto simp: prefix_def)
      then have "\<exists>a b. xs = a @ q @ b" by blast
      with qs up e show ?thesis by auto
    next
      case False
      with Cons.prems Cons have e: "p = x # q" "ps = qs" by simp_all
      with q qs up show ?thesis by auto
    qed
  qed
qed

lemma Split_tl_part:
  assumes "part \<in> set (tl (Split s c))"
  shows "\<exists>a b. s = a @ part @ b"
proof (cases "Split s c")
  case Nil
  with assms show ?thesis by simp
next
  case (Cons p ps)
  with assms Split_pieces[OF Cons] show ?thesis by simp
qed

lemma Contains_mono:
  assumes "s = a @ part @ b" "Contains part sub"
  shows "Contains s sub"
proof -
  from assms(2) obtain u v where "part = u @ sub @ v" using Contains_iff by blast
  with assms(1) have "s = (a @ u) @ sub @ (v @ b)" by simp
  then show ?thesis using Contains_iff by blast
qed

lemma next_link_empty:
  "\<forall>part \<in> set parts. \<not> Contains part rel_next \<Longrightarrow> next_link parts urlPart = []"
  by (induction parts) auto

lemma parseLinkHeader_no_next:
  assumes "\<not> Contains h rel_next"
  shows "parseLinkHeader h = []"
proof -
  have "\<forall>part \<in> set (tl (Split h CHR '';'')). \<not> Contains part rel_next"
    using assms Split_tl_part Contains_mono by blast
  then have "next_link (tl (Split h CHR '';'')) u = []" for u
    by (rule next_link_empty)
  then show ?thesis by (simp add: parseLinkHeader_def Let_def)
qed

text \<open>
  Claim C8: \<open>parseLinkHeader\<close> returns the path between the angle brackets for the
  header \<open></v2/repo/tags/list?n=100&last=tag99>; rel="next"\<close>, and the empty string
  for every header that does not contain the token \<open>rel="next"\<close>.
\<close>

theorem parseLinkHeader_next:
  "parseLinkHeader ''</v2/repo/tags/list?n=100&last=tag99>; rel=\"next\"''
     = ''/v2/repo/tags/list?n=100&last=tag99''
   \<and> (\<not> Contains h rel_next \<longrightarrow> parseLinkHeader h = [])"
  using parseLinkHeader_example parseLinkHeader_no_next by blast

text \<open>Witness for C8: a header whose only relation is \<open>rel="prev"\<close>.\<close>

theorem parseLinkHeader_next_witness:
  "\<not> Contains ''</v2/repo/tags/list?n=100&last=tag99>; rel=\"prev\"'' rel_next
   \<and> parseLinkHeader ''</v2/repo/tags/list?n=100&last=tag99>; rel=\"prev\"'' = []"
  using parseLinkHeader_next[of "''</v2/repo/tags/list?n=100&last=tag99>; rel=\"prev\"''"]
    prev_link_has_no_next by blast

section \<open>Auth Manager: results\<close>







section \<open>The retry after a 401: results\<close>

lemma Do_sent: "Do env rc req = (r, rc') \<Longrightarrow> rc' = rc\<lparr>rc_sent := rc_sent rc @ [req]\<rparr>"
  by (auto simp: Do_def)

















section \<open>Tag Lister: pagination, results\<close>













section \<open>Digest Checker: the missing digest header, results\<close>

lemma dropped_respond:
  assumes "digest_header_dropped env env' url"
  shows "respond env' sent req = respond env sent req
       \<or> (req_url req = url \<and> accept_header \<in> set (req_header req)
           \<and> (\<exists>r r'. respond env sent req = Inr r \<and> respond env' sent req = Inr r'
                 \<and> StatusCode r = 200 \<and> StatusCode r' = 200
                 \<and> Header_Get r' ''Docker-Content-Digest'' = ''''))"
proof (cases "respond env' sent req = respond env sent req")
  case True
  then show ?thesis by simp
next
  case False
  with assms have "req_url req = url \<and> accept_header \<in> set (req_header req)
      \<and> (case respond env sent req of
            Inl e \<Rightarrow> False
          | Inr r \<Rightarrow>
              StatusCode r = 200 \<and>
              (case respond env' sent req of
                 Inl e' \<Rightarrow> False
               | Inr r' \<Rightarrow>
                   StatusCode r' = 200 \<and> Header_Get r' ''Docker-Content-Digest'' = ''''))"
    unfolding digest_header_dropped_def by blast
  then show ?thesis by (auto split: sum.splits)
qed

lemma dropped_NewRequest:
  assumes "digest_header_dropped env env' url"
  shows "NewRequest env' u hdrs = NewRequest env u hdrs"
  using assms by (simp add: NewRequest_def digest_header_dropped_def)

lemma dropped_Do:
  assumes "digest_header_dropped env env' url"
  shows "Do env' rc req = Do env rc req
       \<or> (req_url req = url
           \<and> (\<exists>r r'. Do env rc req = (Inr r, rc\<lparr>rc_sent := rc_sent rc @ [req]\<rparr>)
                 \<and> Do env' rc req = (Inr r', rc\<lparr>rc_sent := rc_sent rc @ [req]\<rparr>)
                 \<and> StatusCode r = 200 \<and> StatusCode r' = 200
                 \<and> Header_Get r' ''Docker-Content-Digest'' = ''''))"
  using dropped_respond[OF assms, of "rc_sent rc" req]
  by (auto simp: Do_def)

lemma dropped_Get:
  assumes "digest_header_dropped env env' url"
  shows "Get env' rc u = Get env rc u"
proof (cases "NewRequest env u []")
  case (Inl e)
  then show ?thesis using dropped_NewRequest[OF assms, of u "[]"] by (simp add: Get_def)
next
  case (Inr req)
  then have h: "req_header req = []" by (auto simp: NewRequest_def split: if_splits)
  from dropped_respond[OF assms, of "rc_sent rc" req] h
  have "respond env' (rc_sent rc) req = respond env (rc_sent rc) req" by auto
  then show ?thesis using Inr dropped_NewRequest[OF assms, of u "[]"]
    by (simp add: Get_def Do_def)
qed

lemma dropped_getBearerToken:
  assumes "digest_header_dropped env env' url"
  shows "getBearerToken env' rc h repo = getBearerToken env rc h repo"
  unfolding getBearerToken_def dropped_Get[OF assms] by (rule refl)

text \<open>
  The two networks lead \<open>request_with_auth\<close> the same way: the results are the
  same, or both are answers 200 to a request for \<open>url\<close>, the one of \<open>env'\<close> without
  the digest header; the client is left the same.
\<close>

lemma dropped_request_with_auth:
  assumes d: "digest_header_dropped env env' url"
  shows "request_with_auth env' rc u hdrs repo = request_with_auth env rc u hdrs repo
       \<or> (u = url
           \<and> (\<exists>r r' rcx. request_with_auth env rc u hdrs repo = (Inr r, rcx)
                 \<and> request_with_auth env' rc u hdrs repo = (Inr r', rcx)
                 \<and> StatusCode r = 200 \<and> StatusCode r' = 200
                 \<and> Header_Get r' ''Docker-Content-Digest'' = ''''))"
proof (cases "NewRequest env u (hdrs @ cached_auth rc)")
  case (Inl e)
  then show ?thesis
    using dropped_NewRequest[OF d] by (simp add: request_with_auth_def)
next
  case (Inr req)
  then have u: "req_url req = u" by (auto simp: NewRequest_def split: if_splits)
  note n = dropped_NewRequest[OF d]
  from dropped_Do[OF d, of rc req]
  show ?thesis
  proof
    assume same: "Do env' rc req = Do env rc req"
    obtain x rc1 where x: "Do env rc req = (x, rc1)" by (cases "Do env rc req")
    show ?thesis
    proof (cases x)
      case (Inl e)
      with Inr same x show ?thesis by (simp add: request_with_auth_def n)
    next
      case resp: (Inr resp)
      show ?thesis
      proof (cases "StatusCode resp = 401 \<and> Header_Get resp ''WWW-Authenticate'' \<noteq> ''''")
        case False
        with Inr same x resp show ?thesis
          by (auto simp: request_with_auth_def n Let_def)
      next
        case True
        let ?h = "Header_Get resp ''WWW-Authenticate''"
        obtain t rc2 where t: "getBearerToken env rc1 ?h repo = (t, rc2)"
          by (cases "getBearerToken env rc1 ?h repo")
        note t' = dropped_getBearerToken[OF d, of rc1 ?h repo]
        show ?thesis
        proof (cases t)
          case (Inl e)
          with Inr same x resp True t t' show ?thesis
            by (simp add: request_with_auth_def n Let_def)
        next
          case tok: (Inr token)
          show ?thesis
          proof (cases "NewRequest env u (hdrs @ [(''Authorization'', ''Bearer '' @ token)])")
            case (Inl e)
            with Inr same x resp True t t' tok show ?thesis
              by (simp add: request_with_auth_def n Let_def)
          next
            case req2: (Inr req2)
            then have u2: "req_url req2 = u" by (auto simp: NewRequest_def split: if_splits)
            have e: "request_with_auth env rc u hdrs repo = Do env rc2 req2"
              using Inr x resp True t tok req2 by (simp add: request_with_auth_def Let_def)
            have e': "request_with_auth env' rc u hdrs repo = Do env' rc2 req2"
              using Inr same x resp True t t' tok req2
              by (simp add: request_with_auth_def n Let_def)
            from dropped_Do[OF d, of rc2 req2] u2 show ?thesis
              unfolding e e' by auto
          qed
        qed
      qed
    qed
  next
    assume "req_url req = url
           \<and> (\<exists>r r'. Do env rc req = (Inr r, rc\<lparr>rc_sent := rc_sent rc @ [req]\<rparr>)
                 \<and> Do env' rc req = (Inr r', rc\<lparr>rc_sent := rc_sent rc @ [req]\<rparr>)
                 \<and> StatusCode r = 200 \<and> StatusCode r' = 200
                 \<and> Header_Get r' ''Docker-Content-Digest'' = '''')"
    then obtain r r' where "req_url req = url"
      and a: "Do env rc req = (Inr r, rc\<lparr>rc_sent := rc_sent rc @ [req]\<rparr>)"
      and a': "Do env' rc req = (Inr r', rc\<lparr>rc_sent := rc_sent rc @ [req]\<rparr>)"
      and s: "StatusCode r = 200" "StatusCode r' = 200"
      and h: "Header_Get r' ''Docker-Content-Digest'' = ''''"
      by blast
    with u have uu: "u = url" by simp
    have "request_with_auth env rc u hdrs repo = (Inr r, rc\<lparr>rc_sent := rc_sent rc @ [req]\<rparr>)"
      using Inr a s by (simp add: request_with_auth_def)
    moreover have "request_with_auth env' rc u hdrs repo
        = (Inr r', rc\<lparr>rc_sent := rc_sent rc @ [req]\<rparr>)"
      using Inr a' s by (simp add: request_with_auth_def n)
    ultimately show ?thesis using uu s h by blast
  qed
qed

lemma manifest_url_inject:
  "manifest_url registryURL repository tag = manifest_url registryURL repository tag' \<longleftrightarrow> tag = tag'"
  by (simp add: manifest_url_def)

lemma dropped_fetchManifestDigest:
  assumes d: "digest_header_dropped env env' (manifest_url reg repo tag)"
  shows "snd (fetchManifestDigest env' rc reg repo t) = snd (fetchManifestDigest env rc reg repo t)
       \<and> (fst (fetchManifestDigest env' rc reg repo t) = fst (fetchManifestDigest env rc reg repo t)
          \<or> (t = tag \<and> fst (fetchManifestDigest env' rc reg repo t) = Inl (NoDigestHeaderForTag tag)))"
proof -
  let ?u = "manifest_url reg repo t"
  from dropped_request_with_auth[OF d, of rc ?u "[accept_header]" repo]
  show ?thesis
  proof
    assume "request_with_auth env' rc ?u [accept_header] repo
          = request_with_auth env rc ?u [accept_header] repo"
    then show ?thesis by (simp add: fetchManifestDigest_def)
  next
    assume "?u = manifest_url reg repo tag
           \<and> (\<exists>r r' rcx. request_with_auth env rc ?u [accept_header] repo = (Inr r, rcx)
                 \<and> request_with_auth env' rc ?u [accept_header] repo = (Inr r', rcx)
                 \<and> StatusCode r = 200 \<and> StatusCode r' = 200
                 \<and> Header_Get r' ''Docker-Content-Digest'' = '''')"
    then obtain r r' rcx where tt: "t = tag"
      and a: "request_with_auth env rc ?u [accept_header] repo = (Inr r, rcx)"
      and a': "request_with_auth env' rc ?u [accept_header] repo = (Inr r', rcx)"
      and s: "StatusCode r = 200" "StatusCode r' = 200"
      and h: "Header_Get r' ''Docker-Content-Digest'' = ''''"
      using manifest_url_inject by blast
    have "fetchManifestDigest env' rc reg repo t = (Inl (NoDigestHeaderForTag t), rcx)"
      using a' s h by (simp add: fetchManifestDigest_def)
    moreover have "snd (fetchManifestDigest env rc reg repo t) = rcx"
      using a s by (simp add: fetchManifestDigest_def Let_def)
    ultimately show ?thesis using tt by simp
  qed
qed

lemma Tag_tag_info_any: "Tag (tag_info t r) = t"
  by (cases r) (simp_all add: tag_info_def)

lemma dropped_worker:
  assumes d: "digest_header_dropped env env' (manifest_url reg repo tag)"
  shows "snd (worker env' ctx rc reg repo jobs) = snd (worker env ctx rc reg repo jobs)
       \<and> list_all2 (same_or_missing tag)
            (fst (worker env' ctx rc reg repo jobs)) (fst (worker env ctx rc reg repo jobs))"
proof (induction jobs arbitrary: ctx rc)
  case Nil
  then show ?case by simp
next
  case (Cons t jobs)
  show ?case
  proof (cases "ctx = Some 0")
    case True
    then show ?thesis by simp
  next
    case False
    obtain r rc1 where r: "fetchManifestDigest env rc reg repo t = (r, rc1)"
      by (cases "fetchManifestDigest env rc reg repo t")
    obtain r' rc1' where r': "fetchManifestDigest env' rc reg repo t = (r', rc1')"
      by (cases "fetchManifestDigest env' rc reg repo t")
    from dropped_fetchManifestDigest[OF d, of rc t] r r'
    have rc: "rc1' = rc1" and rr: "r' = r \<or> (t = tag \<and> r' = Inl (NoDigestHeaderForTag tag))"
      by simp_all
    from rr have s: "same_or_missing tag (tag_info t r') (tag_info t r)"
    proof
    assume "r' = r"
    then show ?thesis by (simp add: same_or_missing_def)
  next
    assume "t = tag \<and> r' = Inl (NoDigestHeaderForTag tag)"
    then have "tag_info t r' = missing_digest_info tag" and "t = tag"
      by (simp_all add: tag_info_def missing_digest_info_def)
    moreover have "Tag (tag_info t r) = t" by (rule Tag_tag_info_any)
    ultimately show ?thesis by (simp add: same_or_missing_def)
  qed
    from Cons.IH[of "map_option (\<lambda>k. k - 1) ctx" rc1] s
    show ?thesis using False r r' rc by (simp add: case_prod_unfold)
  qed
qed

lemma missing_header_result:
  assumes "manifest_response env rc registryURL repository tag = Inr resp"
    and "StatusCode resp = 200" and "Header_Get resp ''Docker-Content-Digest'' = ''''"
  shows "tag_info tag (fst (fetchManifestDigest env rc registryURL repository tag))
       = missing_digest_info tag"
proof -
  obtain x rcx where x: "request_with_auth env rc (manifest_url registryURL repository tag)
      [accept_header] repository = (x, rcx)"
    by (cases "request_with_auth env rc (manifest_url registryURL repository tag)
      [accept_header] repository")
  with assms(1) have "x = Inr resp" by (simp add: manifest_response_def)
  with x assms(2,3) show ?thesis
    by (simp add: fetchManifestDigest_def tag_info_def missing_digest_info_def)
qed

text \<open>
  Claim C9: whenever the response on which the fetch for a tag goes on (the first
  answer, or the answer to the retry after a 401) has status 200 and no
  content-digest header, the result for that tag carries the error "no digest
  header" and an empty digest, whatever the body holds. The missing header touches
  that result only: against a network that differs in nothing but the digest header
  (and the body) of such answers for the tag, a worker leaves the client the same
  and sends the same results, except that results for that tag may be the
  missing-header error.
\<close>

theorem missing_digest_header_isolated:
  "(manifest_response env' rc' registryURL repository tag = Inr resp
    \<and> StatusCode resp = 200 \<and> Header_Get resp ''Docker-Content-Digest'' = ''''
    \<longrightarrow> tag_info tag (fst (fetchManifestDigest env' rc' registryURL repository tag))
          = missing_digest_info tag)
   \<and> (digest_header_dropped env env' (manifest_url registryURL repository tag)
      \<longrightarrow> snd (worker env' ctx rc registryURL repository jobs)
            = snd (worker env ctx rc registryURL repository jobs)
          \<and> list_all2 (same_or_missing tag)
              (fst (worker env' ctx rc registryURL repository jobs))
              (fst (worker env ctx rc registryURL repository jobs)))"
  using missing_header_result dropped_worker by blast

lemma headerless_dropped:
  "digest_header_dropped digest_registry headerless_registry
     (manifest_url ''https://r.example'' ''repo'' ''broken'')"
  by (simp add: digest_header_dropped_def digest_registry_def headerless_registry_def
      behind_token_def manifest_url_def Header_Get_def)

lemma headerless_response:
  "manifest_response headerless_registry (NewRegistryClient 2) ''https://r.example'' ''repo''
     ''broken''
   = Inr \<lparr>StatusCode = 200, Header = [],
          Body = Some (JObject [(''digest'', JString ''sha256:bbbb'')])\<rparr>"
  by code_simp

lemma headerless_first_answer:
  "respond headerless_registry []
     (first_request (NewRegistryClient 2)
        (manifest_url ''https://r.example'' ''repo'' ''broken'') [accept_header])
   = Inr \<lparr>StatusCode = 401, Header = [(''WWW-Authenticate'', refusing_challenge)],
          Body = None\<rparr>"
  by code_simp

lemma digest_results:
  "fst (worker digest_registry None (NewRegistryClient 2) ''https://r.example'' ''repo''
          [''v1'', ''broken'', ''v2''])
   = [\<lparr>Tag = ''v1'', Digest = ''sha256:aaaa'', Err = None\<rparr>,
      \<lparr>Tag = ''broken'', Digest = ''sha256:aaaa'', Err = None\<rparr>,
      \<lparr>Tag = ''v2'', Digest = ''sha256:aaaa'', Err = None\<rparr>]"
  by code_simp

lemma headerless_results:
  "fst (worker headerless_registry None (NewRegistryClient 2) ''https://r.example'' ''repo''
          [''v1'', ''broken'', ''v2''])
   = [\<lparr>Tag = ''v1'', Digest = ''sha256:aaaa'', Err = None\<rparr>,
      missing_digest_info ''broken'',
      \<lparr>Tag = ''v2'', Digest = ''sha256:aaaa'', Err = None\<rparr>]"
  by code_simp

text \<open>
  Witness for C9: two registries that answer 401 until the client has a token, and
  differ in the manifest of \<open>broken\<close> only. Fetched first by a fresh client,
  \<open>broken\<close> is answered 401, then, on the retry, 200 without the digest header, and
  its result is the error, although the body names a digest. Between \<open>v1\<close> and \<open>v2\<close>,
  \<open>broken\<close> gets the error and the two others keep the digests they have when
  \<open>broken\<close> comes with its header; the client ends the same in both runs.
\<close>

theorem missing_digest_header_isolated_witness:
  "digest_header_dropped digest_registry headerless_registry
     (manifest_url ''https://r.example'' ''repo'' ''broken'')
   \<and> respond headerless_registry []
        (first_request (NewRegistryClient 2)
           (manifest_url ''https://r.example'' ''repo'' ''broken'') [accept_header])
     = Inr \<lparr>StatusCode = 401, Header = [(''WWW-Authenticate'', refusing_challenge)],
            Body = None\<rparr>
   \<and> manifest_response headerless_registry (NewRegistryClient 2) ''https://r.example'' ''repo''
        ''broken''
     = Inr \<lparr>StatusCode = 200, Header = [],
            Body = Some (JObject [(''digest'', JString ''sha256:bbbb'')])\<rparr>
   \<and> tag_info ''broken''
        (fst (fetchManifestDigest headerless_registry (NewRegistryClient 2)
                ''https://r.example'' ''repo'' ''broken''))
     = missing_digest_info ''broken''
   \<and> fst (worker digest_registry None (NewRegistryClient 2) ''https://r.example'' ''repo''
            [''v1'', ''broken'', ''v2''])
     = [\<lparr>Tag = ''v1'', Digest = ''sha256:aaaa'', Err = None\<rparr>,
        \<lparr>Tag = ''broken'', Digest = ''sha256:aaaa'', Err = None\<rparr>,
        \<lparr>Tag = ''v2'', Digest = ''sha256:aaaa'', Err = None\<rparr>]
   \<and> fst (worker headerless_registry None (NewRegistryClient 2) ''https://r.example'' ''repo''
            [''v1'', ''broken'', ''v2''])
     = [\<lparr>Tag = ''v1'', Digest = ''sha256:aaaa'', Err = None\<rparr>,
        \<lparr>Tag = ''broken'', Digest = '''', Err = Some (NoDigestHeaderForTag ''broken'')\<rparr>,
        \<lparr>Tag = ''v2'', Digest = ''sha256:aaaa'', Err = None\<rparr>]
   \<and> snd (worker headerless_registry None (NewRegistryClient 2) ''https://r.example'' ''repo''
            [''v1'', ''broken'', ''v2''])
     = snd (worker digest_registry None (NewRegistryClient 2) ''https://r.example'' ''repo''
              [''v1'', ''broken'', ''v2''])"
proof -
  let ?resp = "\<lparr>StatusCode = 200, Header = [],
      Body = Some (JObject [(''digest'', JString ''sha256:bbbb'')])\<rparr>"
  have h: "StatusCode ?resp = 200 \<and> Header_Get ?resp ''Docker-Content-Digest'' = ''''"
    by (simp add: Header_Get_def)
  note t = missing_digest_header_isolated[where env = digest_registry
        and env' = headerless_registry and registryURL = "''https://r.example''"
        and repository = "''repo''" and tag = "''broken''"
        and rc' = "NewRegistryClient 2" and resp = ?resp and ctx = None
        and rc = "NewRegistryClient 2" and jobs = "[''v1'', ''broken'', ''v2'']"]
  from t headerless_response h
  have a: "tag_info ''broken''
        (fst (fetchManifestDigest headerless_registry (NewRegistryClient 2)
                ''https://r.example'' ''repo'' ''broken''))
     = missing_digest_info ''broken''"
    by blast
  from t headerless_dropped have b: "snd (worker headerless_registry None (NewRegistryClient 2)
        ''https://r.example'' ''repo'' [''v1'', ''broken'', ''v2''])
     = snd (worker digest_registry None (NewRegistryClient 2) ''https://r.example'' ''repo''
              [''v1'', ''broken'', ''v2''])"
    by blast
  have c: "fst (worker headerless_registry None (NewRegistryClient 2) ''https://r.example''
        ''repo'' [''v1'', ''broken'', ''v2''])
     = [\<lparr>Tag = ''v1'', Digest = ''sha256:aaaa'', Err = None\<rparr>,
        \<lparr>Tag = ''broken'', Digest = '''', Err = Some (NoDigestHeaderForTag ''broken'')\<rparr>,
        \<lparr>Tag = ''v2'', Digest = ''sha256:aaaa'', Err = None\<rparr>]"
    unfolding headerless_results by (simp add: missing_digest_info_def)
  from headerless_dropped headerless_first_answer headerless_response a digest_results c b
  show ?thesis by blast
qed


section \<open>The exit code of \<open>main\<close>: results\<close>

lemma no_match_run:
  "Run (initialModel ''nginx'' ''sha256:aaaa'' 10)
     [TickMsg, tagsMsg [''latest''] None, checkMsg ''latest'' ''sha256:bbbb'' None]
   = Some \<lparr>m_image = ''nginx'', m_targetDigest = ''sha256:aaaa'', m_tags = [''latest''],
       m_matchingTags = [], m_current = 1, m_total = 1, m_done = True, m_err = None,
       m_workers = 10, m_cancelled = False\<rparr>"
  by (simp add: initialModel_def)

lemma failed_listing_run:
  "Run (initialModel ''nginx'' ''sha256:aaaa'' 10) [tagsMsg [] (Some (RegistryReturned 500))]
   = Some \<lparr>m_image = ''nginx'', m_targetDigest = ''sha256:aaaa'', m_tags = [],
       m_matchingTags = [], m_current = 0, m_total = 0, m_done = True,
       m_err = Some (RegistryReturned 500), m_workers = 10, m_cancelled = False\<rparr>"
  by (simp add: initialModel_def)

lemma match_run:
  "Run (initialModel ''nginx'' ''sha256:aaaa'' 10)
     [tagsMsg [''latest''] None, checkMsg ''latest'' ''sha256:aaaa'' None]
   = Some \<lparr>m_image = ''nginx'', m_targetDigest = ''sha256:aaaa'', m_tags = [''latest''],
       m_matchingTags = [''latest''], m_current = 1, m_total = 1, m_done = True, m_err = None,
       m_workers = 10, m_cancelled = False\<rparr>"
  by (simp add: initialModel_def)

lemma main_args: "main_image ''nginx'' = ''nginx''" "main_digest ''sha256:aaaa'' = ''sha256:aaaa''"
  by (simp_all add: main_image_def main_digest_def TrimPrefix_def HasPrefix_def)

text \<open>
  Claim C1 as stated fails: a run in which the only tag does not match, and a run in
  which listing the tags fails, both end with exit code 0, where the claim says 1.
\<close>

theorem main_exit_code_counterexample:
  "main False 10 [''nginx'', ''sha256:aaaa'']
     [TickMsg, tagsMsg [''latest''] None, checkMsg ''latest'' ''sha256:bbbb'' None] None = Some 0
   \<and> map_option claimed_exit_code
        (Run (initialModel ''nginx'' ''sha256:aaaa'' 10)
           [TickMsg, tagsMsg [''latest''] None, checkMsg ''latest'' ''sha256:bbbb'' None]) = Some 1
   \<and> main False 10 [''nginx'', ''sha256:aaaa'']
        [tagsMsg [] (Some (RegistryReturned 500))] None = Some 0
   \<and> map_option claimed_exit_code
        (Run (initialModel ''nginx'' ''sha256:aaaa'' 10)
           [tagsMsg [] (Some (RegistryReturned 500))]) = Some 1"
proof -
  let ?args = "[''nginx'', ''sha256:aaaa'']"
  have i: "initialModel (main_image (?args ! 0)) (main_digest (?args ! 1)) 10
      = initialModel ''nginx'' ''sha256:aaaa'' 10"
    by (simp add: main_args)
  have a: "main False 10 ?args
     [TickMsg, tagsMsg [''latest''] None, checkMsg ''latest'' ''sha256:bbbb'' None] None = Some 0"
    unfolding main_def i no_match_run by simp
  have b: "main False 10 ?args [tagsMsg [] (Some (RegistryReturned 500))] None = Some 0"
    unfolding main_def i failed_listing_run by simp
  have c: "map_option claimed_exit_code
        (Run (initialModel ''nginx'' ''sha256:aaaa'' 10)
           [TickMsg, tagsMsg [''latest''] None, checkMsg ''latest'' ''sha256:bbbb'' None]) = Some 1"
    unfolding no_match_run by (simp add: claimed_exit_code_def)
  have d: "map_option claimed_exit_code
        (Run (initialModel ''nginx'' ''sha256:aaaa'' 10)
           [tagsMsg [] (Some (RegistryReturned 500))]) = Some 1"
    unfolding failed_listing_run by (simp add: claimed_exit_code_def)
  from a b c d show ?thesis by blast
qed

text \<open>
  Claim C1, amended: the exit code is 1 exactly when the version flag is not given
  and either fewer than two positional arguments are given, or the worker count is
  below 1, or \<open>p.Run()\<close> returns an error; it is 0 when the version flag is given
  and whenever the UI program quits without such an error, whether or not a tag
  matched and whether or not listing the tags failed.
\<close>

theorem main_exit_code:
  "(main versionFlag workers args msgs run_err = Some 1
      \<longleftrightarrow> \<not> versionFlag \<and> (length args < 2 \<or> workers < 1 \<or> run_err \<noteq> None))
   \<and> (main versionFlag workers args msgs run_err = Some 0
      \<longleftrightarrow> versionFlag \<or>
          (2 \<le> length args \<and> 1 \<le> workers \<and> run_err = None \<and>
           Run (initialModel (main_image (args ! 0)) (main_digest (args ! 1)) workers) msgs \<noteq> None))"
  by (auto simp: main_def split: option.splits)

text \<open>Witness for C1: a run with a matching tag exits with 0, a run with zero workers with 1.\<close>

theorem main_exit_code_witness:
  "main False 10 [''nginx'', ''sha256:aaaa'']
     [tagsMsg [''latest''] None, checkMsg ''latest'' ''sha256:aaaa'' None] None = Some 0
   \<and> main False 0 [''nginx'', ''sha256:aaaa''] [] None = Some 1"
proof -
  let ?args = "[''nginx'', ''sha256:aaaa'']"
  let ?msgs = "[tagsMsg [''latest''] None, checkMsg ''latest'' ''sha256:aaaa'' None]"
  have i: "initialModel (main_image (?args ! 0)) (main_digest (?args ! 1)) 10
      = initialModel ''nginx'' ''sha256:aaaa'' 10"
    by (simp add: main_args)
  have r: "Run (initialModel (main_image (?args ! 0)) (main_digest (?args ! 1)) 10) ?msgs \<noteq> None"
    unfolding i match_run by simp
  have l: "2 \<le> length ?args" by simp
  have w: "(1::int) \<le> 10" "(0::int) < 1" by simp_all
  from main_exit_code[of False 10 ?args ?msgs None] r l w
  have a: "main False 10 ?args ?msgs None = Some 0" by blast
  from main_exit_code[of False 0 ?args "[]" None] w
  have b: "main False 0 ?args [] None = Some 1" by blast
  from a b show ?thesis by blast
qed

section \<open>The worker pool: results\<close>

lemma held_update:
  assumes "w < length ws"
  shows "held (ws[w := x]) + holding (ws ! w) = held ws + holding x"
proof -
  from assms have m: "mset (ws[w := x]) = add_mset x (mset ws - {#ws ! w#})"
    by (rule mset_update)
  from assms have "ws ! w \<in># mset ws" by simp
  then have "mset ws = add_mset (ws ! w) (mset ws - {#ws ! w#})" by simp
  then have "held ws = holding (ws ! w) + (\<Sum>v\<in>#mset ws - {#ws ! w#}. holding v)"
    unfolding held_def by (metis image_mset_add_mset sum_mset.add_mset)
  moreover have "held (ws[w := x]) = holding x + (\<Sum>v\<in>#mset ws - {#ws ! w#}. holding v)"
    unfolding held_def m by simp
  ultimately show ?thesis by (simp add: ac_simps)
qed

lemma steps_update:
  assumes "w < length ws"
  shows "sum_list (map steps_left (ws[w := x])) + steps_left (ws ! w)
       = sum_list (map steps_left ws) + steps_left x"
  using assms
proof (induction ws arbitrary: w)
  case Nil
  then show ?case by simp
next
  case (Cons a ws)
  then show ?case by (cases w) (auto simp: )
qed

lemma held_all_exited: "list_all (\<lambda>w. w = Exited) ws \<Longrightarrow> held ws = {#}"
  by (induction ws) (auto simp: held_def)

lemma held_replicate: "held (replicate N Waiting) = {#}"
  by (induction N) (auto simp: held_def)

lemma held_gain:
  assumes "w < length ws" and "holding (ws ! w) = {#}"
  shows "held (ws[w := x]) = held ws + holding x"
  using held_update[OF assms(1), of x] assms(2) by simp

lemma held_lose:
  assumes "w < length ws" and "holding x = {#}"
  shows "held ws = held (ws[w := x]) + holding (ws ! w)"
  using held_update[OF assms(1), of x] assms(2) by simp

lemma held_same:
  assumes "w < length ws" and "holding x = holding (ws ! w)"
  shows "held (ws[w := x]) = held ws"
  using held_update[OF assms(1), of x] assms(2) by simp

lemma Tag_tag_info: "Tag (tag_info tag r) = tag"
  by (cases r) (simp_all add: tag_info_def)

lemma all_exited_nth: "list_all (\<lambda>w. w = Exited) ws \<Longrightarrow> w < length ws \<Longrightarrow> ws ! w = Exited"
  by (simp add: list_all_length)

lemma set_update_Exited:
  "Exited \<in> set (ws[w := x]) \<Longrightarrow> x \<noteq> Exited \<Longrightarrow> Exited \<in> set ws"
  using set_update_subset_insert[of ws w x] by auto

lemma pool_inv_start: "pool_inv N tags (FetchDigests_start N tags)"
  by (simp add: pool_inv_def FetchDigests_start_def held_replicate result_tags_def)

lemma inv_SendJob:
  assumes "pool_inv N tags s" and "pool_step SendJob s = Some s'"
  shows "pool_inv N tags s'"
proof -
  from assms(2) obtain tag rest where u: "p_unsent s = tag # rest"
    and s': "s' = s\<lparr>p_unsent := rest, p_jobs := p_jobs s @ [tag]\<rparr>"
    by (auto split: list.splits)
  from assms(1) u have nc: "\<not> p_jobs_closed s" by (auto simp: pool_inv_def)
  with assms(1) have ne: "\<not> p_cancelled s \<longrightarrow> Exited \<notin> set (p_workers s)"
    and ncl: "\<not> p_closed s"
    by (auto simp: pool_inv_def)
  show ?thesis
    using assms(1) u nc ne ncl unfolding pool_inv_def s'
    by (auto simp: result_tags_def)
qed

lemma inv_CloseJobs:
  assumes "pool_inv N tags s" and "pool_step CloseJobs s = Some s'"
  shows "pool_inv N tags s'"
proof -
  from assms(2) have u: "p_unsent s = []" and nc: "\<not> p_jobs_closed s"
    and s': "s' = s\<lparr>p_jobs_closed := True\<rparr>"
    by (auto split: if_splits)
  with assms(1) have ne: "\<not> p_cancelled s \<longrightarrow> Exited \<notin> set (p_workers s)"
    by (auto simp: pool_inv_def)
  show ?thesis
    using assms(1) u nc ne unfolding pool_inv_def s'
    by (auto simp: result_tags_def)
qed

lemma inv_Receive:
  assumes "pool_inv N tags s" and "pool_step (Receive w) s = Some s'"
  shows "pool_inv N tags s'"
proof -
  from assms(2) obtain tag rest where w: "w < length (p_workers s)"
    and ww: "p_workers s ! w = Waiting" and j: "p_jobs s = tag # rest"
    and s': "s' = s\<lparr>p_jobs := rest, p_workers := (p_workers s)[w := Selecting tag]\<rparr>"
    by (auto split: if_splits list.splits)
  have h: "held ((p_workers s)[w := Selecting tag]) = held (p_workers s) + {#tag#}"
    using held_gain[OF w, of "Selecting tag"] ww by simp
  from assms(1) j have ne: "\<not> p_cancelled s \<longrightarrow> Exited \<notin> set (p_workers s)"
    by (auto simp: pool_inv_def)
  then have ne': "\<not> p_cancelled s \<longrightarrow> Exited \<notin> set ((p_workers s)[w := Selecting tag])"
    using set_update_Exited[of "p_workers s" w "Selecting tag"] by auto
  from assms(1) w ww have ncl: "\<not> p_closed s"
    using all_exited_nth[of "p_workers s" w] by (auto simp: pool_inv_def)
  show ?thesis
    using assms(1) j ne' ncl unfolding pool_inv_def s'
    by (auto simp: result_tags_def h)
qed

lemma inv_RangeEnd:
  assumes "pool_inv N tags s" and "pool_step (RangeEnd w) s = Some s'"
  shows "pool_inv N tags s'"
proof -
  from assms(2) have w: "w < length (p_workers s)"
    and ww: "p_workers s ! w = Waiting" and j: "p_jobs s = []" and jc: "p_jobs_closed s"
    and s': "s' = s\<lparr>p_workers := (p_workers s)[w := Exited]\<rparr>"
    by (auto split: if_splits)
  have h: "held ((p_workers s)[w := Exited]) = held (p_workers s)"
    using held_same[OF w, of Exited] ww by simp
  from assms(1) w ww have ncl: "\<not> p_closed s"
    using all_exited_nth[of "p_workers s" w] by (auto simp: pool_inv_def)
  show ?thesis
    using assms(1) j jc ncl unfolding pool_inv_def s'
    by (auto simp: result_tags_def h)
qed

lemma inv_Select:
  assumes "pool_inv N tags s" and "pool_step (Select w) s = Some s'"
  shows "pool_inv N tags s'"
proof -
  from assms(2) obtain tag where w: "w < length (p_workers s)"
    and ww: "p_workers s ! w = Selecting tag"
    and s': "s' = s\<lparr>p_workers :=
                (p_workers s)[w := (if p_cancelled s then Exited else Fetching tag)]\<rparr>"
    by (auto split: if_splits wstate.splits)
  from assms(1) w ww have ncl: "\<not> p_closed s"
    using all_exited_nth[of "p_workers s" w] by (auto simp: pool_inv_def)
  show ?thesis
  proof (cases "p_cancelled s")
    case True
    have "held (p_workers s) = held ((p_workers s)[w := Exited]) + {#tag#}"
      using held_lose[OF w, of Exited] ww by simp
    then have "mset (p_unsent s) + mset (p_jobs s) + held ((p_workers s)[w := Exited])
          + result_tags s \<subseteq># mset (p_unsent s) + mset (p_jobs s) + held (p_workers s)
          + result_tags s"
      by simp
    with assms(1) have "mset (p_unsent s) + mset (p_jobs s) + held ((p_workers s)[w := Exited])
          + result_tags s \<subseteq># mset tags"
      unfolding pool_inv_def by (meson subset_mset.order_trans)
    then show ?thesis
      using assms(1) True ncl unfolding pool_inv_def s'
      by (auto simp: result_tags_def)
  next
    case False
    have h: "held ((p_workers s)[w := Fetching tag]) = held (p_workers s)"
      using held_same[OF w, of "Fetching tag"] ww by simp
    have "Exited \<in> set ((p_workers s)[w := Fetching tag]) \<longrightarrow> Exited \<in> set (p_workers s)"
      using set_update_Exited[of "p_workers s" w "Fetching tag"] by auto
    then show ?thesis
      using assms(1) False ncl unfolding pool_inv_def s'
      by (auto simp: result_tags_def h)
  qed
qed

lemma inv_SendResult:
  assumes "pool_inv N tags s" and "pool_step (SendResult w r) s = Some s'"
  shows "pool_inv N tags s'"
proof -
  from assms(2) obtain tag where w: "w < length (p_workers s)"
    and ww: "p_workers s ! w = Fetching tag"
    and s': "s' = s\<lparr>p_results := p_results s @ [tag_info tag r],
                    p_workers := (p_workers s)[w := Waiting]\<rparr>"
    by (auto split: if_splits wstate.splits)
  from assms(1) w ww have ncl: "\<not> p_closed s"
    using all_exited_nth[of "p_workers s" w] by (auto simp: pool_inv_def)
  have h: "held (p_workers s) = held ((p_workers s)[w := Waiting]) + {#tag#}"
    using held_lose[OF w, of Waiting] ww by simp
  have "Exited \<in> set ((p_workers s)[w := Waiting]) \<longrightarrow> Exited \<in> set (p_workers s)"
    using set_update_Exited[of "p_workers s" w Waiting] by auto
  then show ?thesis
    using assms(1) ncl unfolding pool_inv_def s'
    by (auto simp: result_tags_def h Tag_tag_info)
qed

lemma inv_CloseResults:
  assumes "pool_inv N tags s" and "pool_step CloseResults s = Some s'"
  shows "pool_inv N tags s'"
proof -
  from assms(2) have "p_jobs_closed s" "list_all (\<lambda>w. w = Exited) (p_workers s)"
    and s': "s' = s\<lparr>p_closed := True\<rparr>"
    by (auto split: if_splits)
  then show ?thesis
    using assms(1) unfolding pool_inv_def s'
    by (auto simp: result_tags_def)
qed

lemma inv_Cancel:
  assumes "pool_inv N tags s" and "pool_step Cancel s = Some s'"
  shows "pool_inv N tags s'"
proof -
  from assms(2) have s': "s' = s\<lparr>p_cancelled := True\<rparr>" by simp
  show ?thesis
    using assms(1) unfolding pool_inv_def s'
    by (auto simp: result_tags_def)
qed

lemma pool_inv_step:
  assumes "pool_inv N tags s" and "pool_step e s = Some s'"
  shows "pool_inv N tags s'"
  using assms
  by (cases e) (blast intro: inv_SendJob inv_CloseJobs inv_Receive inv_RangeEnd inv_Select
      inv_SendResult inv_CloseResults inv_Cancel)+

lemma pool_inv_run:
  assumes "pool_inv N tags s" and "run_pool evs s = Some s'"
  shows "pool_inv N tags s'"
  using assms
proof (induction evs arbitrary: s)
  case Nil
  then show ?case by simp
next
  case (Cons e evs)
  from Cons.prems(2) obtain s1 where s1: "pool_step e s = Some s1" and r: "run_pool evs s1 = Some s'"
    by (auto split: option.splits)
  from pool_inv_step[OF Cons.prems(1) s1] r show ?case by (rule Cons.IH)
qed

lemma steps_gain:
  assumes "w < length ws"
  shows "sum_list (map steps_left (ws[w := x]))
       = sum_list (map steps_left ws) + steps_left x - steps_left (ws ! w)"
  using steps_update[OF assms, of x] by simp

lemma steps_ge:
  assumes "w < length ws"
  shows "steps_left (ws ! w) \<le> sum_list (map steps_left ws)"
  using assms by (simp add: member_le_sum_list)

lemma pool_step_decreases:
  assumes "pool_step e s = Some s'" and "e \<noteq> Cancel"
  shows "pool_steps_left s' < pool_steps_left s"
proof (cases e)
  case SendJob
  with assms(1) show ?thesis by (auto simp: pool_steps_left_def split: list.splits)
next
  case CloseJobs
  with assms(1) show ?thesis by (auto simp: pool_steps_left_def split: if_splits)
next
  case (Receive w)
  with assms(1) obtain tag rest where w: "w < length (p_workers s)"
    and ww: "p_workers s ! w = Waiting" and j: "p_jobs s = tag # rest"
    and s': "s' = s\<lparr>p_jobs := rest, p_workers := (p_workers s)[w := Selecting tag]\<rparr>"
    by (auto split: if_splits list.splits)
  from steps_update[OF w, of "Selecting tag"] ww
  have "sum_list (map steps_left ((p_workers s)[w := Selecting tag])) + 1
      = sum_list (map steps_left (p_workers s)) + 3" by simp
  then show ?thesis unfolding pool_steps_left_def s' using j by simp
next
  case (RangeEnd w)
  with assms(1) have w: "w < length (p_workers s)"
    and ww: "p_workers s ! w = Waiting"
    and s': "s' = s\<lparr>p_workers := (p_workers s)[w := Exited]\<rparr>"
    by (auto split: if_splits)
  from steps_update[OF w, of Exited] ww
  have "sum_list (map steps_left ((p_workers s)[w := Exited])) + 1
      = sum_list (map steps_left (p_workers s))" by simp
  then show ?thesis unfolding pool_steps_left_def s' by simp
next
  case (Select w)
  with assms(1) obtain tag where w: "w < length (p_workers s)"
    and ww: "p_workers s ! w = Selecting tag"
    and s': "s' = s\<lparr>p_workers :=
                (p_workers s)[w := (if p_cancelled s then Exited else Fetching tag)]\<rparr>"
    by (auto split: if_splits wstate.splits)
  from steps_update[OF w, of "if p_cancelled s then Exited else Fetching tag"] ww
  have "sum_list (map steps_left
          ((p_workers s)[w := (if p_cancelled s then Exited else Fetching tag)])) + 3
      = sum_list (map steps_left (p_workers s))
        + steps_left (if p_cancelled s then Exited else Fetching tag)" by simp
  then show ?thesis unfolding pool_steps_left_def s' by (simp split: if_splits)
next
  case (SendResult w r)
  with assms(1) obtain tag where w: "w < length (p_workers s)"
    and ww: "p_workers s ! w = Fetching tag"
    and s': "s' = s\<lparr>p_results := p_results s @ [tag_info tag r],
                    p_workers := (p_workers s)[w := Waiting]\<rparr>"
    by (auto split: if_splits wstate.splits)
  from steps_update[OF w, of Waiting] ww
  have "sum_list (map steps_left ((p_workers s)[w := Waiting])) + 2
      = sum_list (map steps_left (p_workers s)) + 1" by simp
  then show ?thesis unfolding pool_steps_left_def s' by simp
next
  case CloseResults
  with assms(1) show ?thesis by (auto simp: pool_steps_left_def split: if_splits)
next
  case Cancel
  with assms(2) show ?thesis by simp
qed

lemma run_pool_length:
  assumes "run_pool evs s = Some s'" and "Cancel \<notin> set evs"
  shows "pool_steps_left s' + length evs \<le> pool_steps_left s"
  using assms
proof (induction evs arbitrary: s)
  case Nil
  then show ?case by simp
next
  case (Cons e evs)
  from Cons.prems(1) obtain s1 where s1: "pool_step e s = Some s1" and r: "run_pool evs s1 = Some s'"
    by (auto split: option.splits)
  from Cons.prems(2) have "e \<noteq> Cancel" "Cancel \<notin> set evs" by auto
  with pool_step_decreases[OF s1] Cons.IH[OF r] show ?case by simp
qed

lemma pool_steps_left_start:
  "pool_steps_left (FetchDigests_start N tags) = 4 * length tags + N + 2"
  by (simp add: pool_steps_left_def FetchDigests_start_def sum_list_replicate)

lemma pool_step_cancelled:
  assumes "pool_step e s = Some s'" and "e \<noteq> Cancel"
  shows "p_cancelled s' = p_cancelled s"
  using assms by (cases e) (auto split: if_splits list.splits wstate.splits)

lemma run_pool_not_cancelled:
  assumes "run_pool evs s = Some s'" and "Cancel \<notin> set evs"
  shows "p_cancelled s' = p_cancelled s"
  using assms
proof (induction evs arbitrary: s)
  case Nil
  then show ?case by simp
next
  case (Cons e evs)
  from Cons.prems(1) obtain s1 where s1: "pool_step e s = Some s1" and r: "run_pool evs s1 = Some s'"
    by (auto split: option.splits)
  from Cons.prems(2) have "e \<noteq> Cancel" "Cancel \<notin> set evs" by auto
  with pool_step_cancelled[OF s1] Cons.IH[OF r] show ?case by simp
qed

lemma pool_progress:
  assumes "\<not> p_closed s"
  shows "\<exists>e. e \<noteq> Cancel \<and> pool_step e s \<noteq> None"
proof (cases "p_unsent s")
  case (Cons tag rest)
  then have "pool_step SendJob s \<noteq> None" by simp
  then show ?thesis by blast
next
  case Nil
  show ?thesis
  proof (cases "p_jobs_closed s")
    case False
    with Nil have "pool_step CloseJobs s \<noteq> None" by simp
    then show ?thesis by blast
  next
    case True
    show ?thesis
    proof (cases "list_all (\<lambda>w. w = Exited) (p_workers s)")
      case all: True
      with True assms have "pool_step CloseResults s \<noteq> None" by simp
      then show ?thesis by blast
    next
      case False
      then obtain w where w: "w < length (p_workers s)" and ne: "p_workers s ! w \<noteq> Exited"
        by (auto simp: list_all_length)
      show ?thesis
      proof (cases "p_workers s ! w")
        case Waiting
        show ?thesis
        proof (cases "p_jobs s")
          case Nil
          with Waiting w True have "pool_step (RangeEnd w) s \<noteq> None" by simp
          then show ?thesis by blast
        next
          case (Cons tag rest)
          with Waiting w have "pool_step (Receive w) s \<noteq> None" by simp
          then show ?thesis by blast
        qed
      next
        case (Selecting tag)
        with w have "pool_step (Select w) s \<noteq> None" by simp
        then show ?thesis by blast
      next
        case (Fetching tag)
        with w have "pool_step (SendResult w (Inr '''')) s \<noteq> None" by simp
        then show ?thesis by blast
      next
        case Exited
        with ne show ?thesis by simp
      qed
    qed
  qed
qed

lemma pool_closed_complete:
  assumes "pool_inv N tags s" and "p_closed s" and "\<not> p_cancelled s" and "0 < N"
  shows "result_tags s = mset tags"
proof -
  from assms(1,2) have all: "list_all (\<lambda>w. w = Exited) (p_workers s)"
    and jc: "p_jobs_closed s" and len: "length (p_workers s) = N"
    by (auto simp: pool_inv_def)
  from len assms(4) have "p_workers s ! 0 \<in> set (p_workers s)" by simp
  with all_exited_nth[OF all, of 0] len assms(4) have "Exited \<in> set (p_workers s)" by simp
  with assms(1,3) jc have "p_jobs s = []" "p_unsent s = []" by (auto simp: pool_inv_def)
  moreover have "held (p_workers s) = {#}" using all by (rule held_all_exited)
  ultimately show ?thesis using assms(1,3) by (simp add: pool_inv_def)
qed

text \<open>
  Claim C2: in every run of the pool, \<open>resultsChan\<close> is closed only when all \<open>N\<close>
  workers have returned, and no result is sent for a tag more often than the tag is
  submitted. With at least one worker and no cancellation, moreover: when
  \<open>resultsChan\<close> is closed, the results sent are one for each submitted tag; as
  long as it is not closed, some goroutine can take a step; and a run has at most
  \<open>4 * length tags + N + 2\<close> steps, so that every run ends, with \<open>resultsChan\<close>
  closed.
\<close>

theorem FetchDigests_complete:
  assumes "run_pool evs (FetchDigests_start N tags) = Some s"
  shows "(p_closed s \<longrightarrow> length (p_workers s) = N \<and> list_all (\<lambda>w. w = Exited) (p_workers s))
       \<and> result_tags s \<subseteq># mset tags
       \<and> (0 < N \<and> Cancel \<notin> set evs \<longrightarrow>
            (p_closed s \<longrightarrow> result_tags s = mset tags)
          \<and> (\<not> p_closed s \<longrightarrow> (\<exists>e. e \<noteq> Cancel \<and> pool_step e s \<noteq> None))
          \<and> length evs \<le> 4 * length tags + N + 2)"
proof -
  have inv: "pool_inv N tags s"
    using pool_inv_run[OF pool_inv_start assms] .
  then have a: "p_closed s \<longrightarrow> length (p_workers s) = N \<and> list_all (\<lambda>w. w = Exited) (p_workers s)"
    by (simp add: pool_inv_def)
  from inv have "mset (p_unsent s) + mset (p_jobs s) + held (p_workers s) + result_tags s
      \<subseteq># mset tags" by (simp add: pool_inv_def)
  then have b: "result_tags s \<subseteq># mset tags"
    by (meson mset_subset_eq_add_right subset_mset.order_trans)
  have c: "(p_closed s \<longrightarrow> result_tags s = mset tags)
          \<and> (\<not> p_closed s \<longrightarrow> (\<exists>e. e \<noteq> Cancel \<and> pool_step e s \<noteq> None))
          \<and> length evs \<le> 4 * length tags + N + 2"
    if n: "0 < N" and nc: "Cancel \<notin> set evs"
  proof -
    from run_pool_not_cancelled[OF assms nc] have ncs: "\<not> p_cancelled s"
      by (simp add: FetchDigests_start_def)
    from run_pool_length[OF assms nc] have "length evs \<le> 4 * length tags + N + 2"
      by (simp add: pool_steps_left_start)
    with pool_closed_complete[OF inv _ ncs n] pool_progress[of s] show ?thesis by blast
  qed
  from a b c show ?thesis by blast
qed

lemma two_worker_run:
  "run_pool two_worker_schedule (FetchDigests_start 2 [''a'', ''b''])
    = Some \<lparr>p_unsent = [], p_jobs = [], p_jobs_closed = True, p_workers = [Exited, Exited],
        p_results = [\<lparr>Tag = ''b'', Digest = ''sha256:bb'', Err = None\<rparr>,
           \<lparr>Tag = ''a'', Digest = '''', Err = Some (RegistryReturnedForTag 404 ''a'')\<rparr>],
        p_closed = True, p_cancelled = False\<rparr>"
  by (simp add: two_worker_schedule_def FetchDigests_start_def tag_info_def numeral_2_eq_2)

lemma two_worker_prefix_run:
  "run_pool [SendJob, Receive 0] (FetchDigests_start 2 [''a'', ''b''])
    = Some \<lparr>p_unsent = [''b''], p_jobs = [], p_jobs_closed = False,
        p_workers = [Selecting ''a'', Waiting], p_results = [],
        p_closed = False, p_cancelled = False\<rparr>"
  by (simp add: FetchDigests_start_def numeral_2_eq_2)

text \<open>
  Witness for C2: the schedule of two workers ends with \<open>resultsChan\<close> closed, both
  workers returned and one result for each of \<open>a\<close> and \<open>b\<close>, in the order of
  completion; after its first two steps the pool is not closed and can go on.
\<close>

theorem FetchDigests_complete_witness:
  "(0::nat) < 2 \<and> Cancel \<notin> set two_worker_schedule
   \<and> (\<exists>s. run_pool two_worker_schedule (FetchDigests_start 2 [''a'', ''b'']) = Some s
          \<and> p_closed s \<and> p_workers s = [Exited, Exited]
          \<and> result_tags s = mset [''a'', ''b'']
          \<and> map Tag (p_results s) = [''b'', ''a''])
   \<and> length two_worker_schedule \<le> 4 * length [''a'', ''b''] + 2 + 2
   \<and> (\<exists>s. run_pool [SendJob, Receive 0] (FetchDigests_start 2 [''a'', ''b'']) = Some s
          \<and> \<not> p_closed s \<and> (\<exists>e. e \<noteq> Cancel \<and> pool_step e s \<noteq> None))"
proof -
  have n: "(0::nat) < 2" by simp
  have c: "Cancel \<notin> set two_worker_schedule" by (simp add: two_worker_schedule_def)
  have c': "Cancel \<notin> set [SendJob, Receive 0]" by simp
  from FetchDigests_complete[OF two_worker_run] n c
  have "result_tags \<lparr>p_unsent = [], p_jobs = [], p_jobs_closed = True,
        p_workers = [Exited, Exited],
        p_results = [\<lparr>Tag = ''b'', Digest = ''sha256:bb'', Err = None\<rparr>,
           \<lparr>Tag = ''a'', Digest = '''', Err = Some (RegistryReturnedForTag 404 ''a'')\<rparr>],
        p_closed = True, p_cancelled = False\<rparr> = mset [''a'', ''b'']"
    and l: "length two_worker_schedule \<le> 4 * length [''a'', ''b''] + 2 + 2"
    by simp_all
  with two_worker_run have a: "\<exists>s. run_pool two_worker_schedule (FetchDigests_start 2 [''a'', ''b'']) = Some s
          \<and> p_closed s \<and> p_workers s = [Exited, Exited]
          \<and> result_tags s = mset [''a'', ''b'']
          \<and> map Tag (p_results s) = [''b'', ''a'']"
    by simp
  from FetchDigests_complete[OF two_worker_prefix_run] n c'
  have "\<exists>e. e \<noteq> Cancel \<and> pool_step e \<lparr>p_unsent = [''b''], p_jobs = [], p_jobs_closed = False,
        p_workers = [Selecting ''a'', Waiting], p_results = [],
        p_closed = False, p_cancelled = False\<rparr> \<noteq> None"
    by simp
  with two_worker_prefix_run have b: "\<exists>s. run_pool [SendJob, Receive 0] (FetchDigests_start 2 [''a'', ''b'']) = Some s
          \<and> \<not> p_closed s \<and> (\<exists>e. e \<noteq> Cancel \<and> pool_step e s \<noteq> None)"
    by simp
  from n c a l b show ?thesis by blast
qed

end
